theory Spec2Isabelle
  imports Complex_Main "HOL-Library.Word" "HOL-Library.Sublist"
begin

unbundle bit_operations_syntax

section \<open>Data model\<close>

text \<open>
  The viewer component reads its inputs from \<^verbatim>\<open>props\<close>: the metadata table, the
  colour map, the selected field, the search term and the label fields. Each function
  below takes the props it reads as explicit arguments.

  A metadata record is a JavaScript object of type \<^verbatim>\<open>Record<string, string>\<close>. It is
  modelled by the list of its own properties in creation order; reading a column
  \<^verbatim>\<open>item[k]\<close> is \<open>map_of item k\<close>, and \<open>None\<close> stands for \<^verbatim>\<open>undefined\<close>. The label
  fields and the selected field are column names that the side panel takes from the
  first record, and the TSV parser gives every record every column, so these reads are
  reads of own properties.
\<close>

type_synonym metadata_record = "(string \<times> string) list"

subsection \<open>Plain objects used as dictionaries\<close>

text \<open>
  The counts of the pie chart, the style map, the colour map and the pie-chart metadata
  are objects created by \<^verbatim>\<open>{}\<close> and indexed by data: field values, node ids and
  accessions. Such an object has \<^verbatim>\<open>Object.prototype\<close> behind it. Reading a key that is
  not an own property yields the inherited member when the key names one, and
  \<^verbatim>\<open>undefined\<close> otherwise. Assigning to a key creates or updates the own property,
  except for the key \<^verbatim>\<open>__proto__\<close>: that assignment runs the inherited setter, which
  creates no own property (it ignores a number or a string, and makes an object the new
  prototype).
\<close>

definition objectPrototypeMembers :: "string list" where
  "objectPrototypeMembers =
     [''constructor'', ''__defineGetter__'', ''__defineSetter__'', ''hasOwnProperty'',
      ''__lookupGetter__'', ''__lookupSetter__'', ''isPrototypeOf'',
      ''propertyIsEnumerable'', ''toString'', ''valueOf'', ''__proto__'',
      ''toLocaleString'']"

datatype 'v slot = Own 'v | Inherited | Missing

definition getProperty :: "(string \<times> 'v) list \<Rightarrow> string \<Rightarrow> 'v slot" where
  "getProperty obj k =
     (case map_of obj k of
        Some v \<Rightarrow> Own v
      | None \<Rightarrow> (if k \<in> set objectPrototypeMembers then Inherited else Missing))"

text \<open>
  Own properties are kept in creation order: assigning to an existing property keeps
  its place, assigning to a new one appends it.
\<close>

fun putOwn :: "string \<Rightarrow> 'v \<Rightarrow> (string \<times> 'v) list \<Rightarrow> (string \<times> 'v) list" where
  "putOwn k v [] = [(k, v)]"
| "putOwn k v (p # ps) = (if fst p = k then (k, v) # ps else p # putOwn k v ps)"

definition setProperty :: "string \<Rightarrow> 'v \<Rightarrow> (string \<times> 'v) list \<Rightarrow> (string \<times> 'v) list" where
  "setProperty k v obj = (if k = ''__proto__'' then obj else putOwn k v obj)"

text \<open>
  The order in which JavaScript enumerates the own string keys of an object
  (\<^verbatim>\<open>OrdinaryOwnPropertyKeys\<close>): first the keys that are array indices, that is canonical
  decimal numerals of an integer from 0 to \<open>2\<^sup>3\<^sup>2 - 2\<close>, in ascending numeric order; then
  all other keys in creation order.
\<close>

definition digitValue :: "char \<Rightarrow> nat option" where
  "digitValue c = map_of (zip ''0123456789'' [0, 1, 2, 3, 4, 5, 6, 7, 8, 9]) c"

definition parseDigits :: "string \<Rightarrow> nat" where
  "parseDigits k = foldl (\<lambda>n c. 10 * n + (case digitValue c of None \<Rightarrow> 0 | Some d \<Rightarrow> d)) 0 k"

definition isArrayIndex :: "string \<Rightarrow> bool" where
  "isArrayIndex k =
     (k \<noteq> [] \<and> list_all (\<lambda>c. digitValue c \<noteq> None) k
      \<and> (k = ''0'' \<or> hd k \<noteq> CHR ''0'') \<and> parseDigits k < 2 ^ 32 - 1)"

definition ownKeyOrder :: "string list \<Rightarrow> string list" where
  "ownKeyOrder ks = sort_key parseDigits (filter isArrayIndex ks) @ filter (\<lambda>k. \<not> isArrayIndex k) ks"

text \<open>\<^verbatim>\<open>Object.entries\<close>: the pair of each own key, in that order, with its value.\<close>

definition Object_entries :: "(string \<times> 'v) list \<Rightarrow> (string \<times> 'v) list" where
  "Object_entries obj = map (\<lambda>k. (k, the (map_of obj k))) (ownKeyOrder (map fst obj))"

subsection \<open>Numbers\<close>

text \<open>
  JavaScript numbers with their special values. Arithmetic on finite values is exact
  here (rounding and the sign of zero are not modelled); the special values behave as
  IEEE 754 prescribes. \<open>Infinity True\<close> is the negative infinity.
\<close>

datatype number = NaN | Infinity bool | Finite real

fun num_add :: "number \<Rightarrow> number \<Rightarrow> number" where
  "num_add NaN b = NaN"
| "num_add a NaN = NaN"
| "num_add (Finite x) (Finite y) = Finite (x + y)"
| "num_add (Infinity s) (Finite y) = Infinity s"
| "num_add (Finite x) (Infinity t) = Infinity t"
| "num_add (Infinity s) (Infinity t) = (if s = t then Infinity s else NaN)"

fun num_mul :: "number \<Rightarrow> number \<Rightarrow> number" where
  "num_mul NaN b = NaN"
| "num_mul a NaN = NaN"
| "num_mul (Finite x) (Finite y) = Finite (x * y)"
| "num_mul (Infinity s) (Finite y) = (if y = 0 then NaN else Infinity (s \<noteq> (y < 0)))"
| "num_mul (Finite x) (Infinity s) = (if x = 0 then NaN else Infinity (s \<noteq> (x < 0)))"
| "num_mul (Infinity s) (Infinity t) = Infinity (s \<noteq> t)"

fun num_div :: "number \<Rightarrow> number \<Rightarrow> number" where
  "num_div NaN b = NaN"
| "num_div a NaN = NaN"
| "num_div (Finite x) (Finite y) =
     (if y = 0 then (if x = 0 then NaN else Infinity (x < 0)) else Finite (x / y))"
| "num_div (Finite x) (Infinity s) = Finite 0"
| "num_div (Infinity s) (Finite y) = Infinity (s \<noteq> (y < 0))"
| "num_div (Infinity s) (Infinity t) = NaN"

text \<open>\<^verbatim>\<open>Math.pow(b, e)\<close> for a base \<open>b > 1\<close>: the source uses the bases 2 and 10.\<close>

fun num_pow :: "real \<Rightarrow> number \<Rightarrow> number" where
  "num_pow b NaN = NaN"
| "num_pow b (Infinity s) = (if s then Finite 0 else Infinity False)"
| "num_pow b (Finite e) = Finite (b powr e)"

fun num_log10 :: "number \<Rightarrow> number" where
  "num_log10 NaN = NaN"
| "num_log10 (Infinity s) = (if s then NaN else Infinity False)"
| "num_log10 (Finite x) =
     (if x < 0 then NaN else if x = 0 then Infinity True else Finite (log 10 x))"

fun num_floor :: "number \<Rightarrow> number" where
  "num_floor (Finite x) = Finite (of_int \<lfloor>x\<rfloor>)"
| "num_floor a = a"

text \<open>\<^verbatim>\<open>a <= b\<close>: false as soon as one side is \<^verbatim>\<open>NaN\<close>.\<close>

fun num_le :: "number \<Rightarrow> number \<Rightarrow> bool" where
  "num_le NaN b = False"
| "num_le a NaN = False"
| "num_le (Finite x) (Finite y) = (x \<le> y)"
| "num_le (Infinity s) (Finite y) = s"
| "num_le (Finite x) (Infinity t) = (\<not> t)"
| "num_le (Infinity s) (Infinity t) = (s \<or> \<not> t)"

text \<open>
  Where a result depends on the rounding of double precision, the rounding is applied
  explicitly. \<open>roundDouble\<close> rounds a real number to the nearest double, ties to the even
  significand, with 53 bits of significand and the fixed spacing \<open>2\<^sup>-\<^sup>1\<^sup>0\<^sup>7\<^sup>4\<close> below
  \<open>2\<^sup>-\<^sup>1\<^sup>0\<^sup>2\<^sup>2\<close>. Magnitudes from \<open>2\<^sup>1\<^sup>0\<^sup>2\<^sup>4\<close> on, which a double turns into an infinity, do not
  occur where it is used (pixel positions and hashes of strings).
\<close>

definition roundEven :: "real \<Rightarrow> int" where
  "roundEven y =
     (let f = \<lfloor>y\<rfloor>; d = y - of_int f
      in if d < 1 / 2 then f else if 1 / 2 < d then f + 1 else if even f then f else f + 1)"

definition roundDouble :: "real \<Rightarrow> real" where
  "roundDouble x =
     (if x = 0 then 0
      else (let e = max \<lfloor>log 2 \<bar>x\<bar>\<rfloor> (- 1022);
                q = 2 powr (of_int e - 52)
            in q * of_int (roundEven (x / q))))"

subsection \<open>Strings, accessions and labels\<close>

text \<open>\<^verbatim>\<open>String.prototype.split\<close> with a one-character separator.\<close>

fun split :: "char \<Rightarrow> string \<Rightarrow> string list" where
  "split sep [] = [[]]"
| "split sep (c # cs) =
     (if c = sep then [] # split sep cs
      else (case split sep cs of
              [] \<Rightarrow> [[c]]
            | p # ps \<Rightarrow> (c # p) # ps))"

text \<open>\<^verbatim>\<open>Array.prototype.join\<close> on an array of strings.\<close>

fun join :: "string \<Rightarrow> string list \<Rightarrow> string" where
  "join sep [] = []"
| "join sep [p] = p"
| "join sep (p # q # ps) = p @ sep @ join sep (q # ps)"

text \<open>\<^verbatim>\<open>nodeName.split('|')[0]\<close>\<close>

definition extractAccessionVersion :: "string \<Rightarrow> string" where
  "extractAccessionVersion nodeName =
     (case split (CHR ''|'') nodeName of [] \<Rightarrow> [] | p # ps \<Rightarrow> p)"

text \<open>
  The specification's wording of the accession: the part of a node id before the first
  \<open>|\<close>, the whole id when it has none.
\<close>

definition accessionKey :: "string \<Rightarrow> string" where
  "accessionKey nodeId = takeWhile (\<lambda>c. c \<noteq> CHR ''|'') nodeId"

text \<open>
  \<^verbatim>\<open>props.metadata.find(item => item.accessionVersion === accessionVersion)\<close>:
  the same expression occurs in every function that resolves a node to its record.
\<close>

definition findByAccession :: "metadata_record list \<Rightarrow> string \<Rightarrow> metadata_record option" where
  "findByAccession metadata accessionVersion =
     find (\<lambda>item. map_of item ''accessionVersion'' = Some accessionVersion) metadata"

text \<open>
  The table without the records that repeat the accessionVersion of an earlier record;
  \<open>seen\<close> holds the accessionVersion properties met so far.
\<close>

fun dropLater :: "string option list \<Rightarrow> metadata_record list \<Rightarrow> metadata_record list" where
  "dropLater seen [] = []"
| "dropLater seen (r # rs) =
     (if map_of r ''accessionVersion'' \<in> set seen then dropLater seen rs
      else r # dropLater (map_of r ''accessionVersion'' # seen) rs)"

text \<open>
  The loop of \<^verbatim>\<open>buildNodeLabel\<close> over \<^verbatim>\<open>props.labelFields\<close>: a field is pushed when
  its value is neither \<^verbatim>\<open>undefined\<close>, \<^verbatim>\<open>null\<close> nor the empty string.
\<close>

fun pushLabelFields :: "metadata_record \<Rightarrow> string list \<Rightarrow> string list \<Rightarrow> string list" where
  "pushLabelFields metadataItem [] labelParts = labelParts"
| "pushLabelFields metadataItem (field # fields) labelParts =
     (case map_of metadataItem field of
        None \<Rightarrow> pushLabelFields metadataItem fields labelParts
      | Some v \<Rightarrow>
          (if v \<noteq> [] then pushLabelFields metadataItem fields (labelParts @ [v])
           else pushLabelFields metadataItem fields labelParts))"

definition buildNodeLabel :: "metadata_record list \<Rightarrow> string list \<Rightarrow> string \<Rightarrow> string" where
  "buildNodeLabel metadata labelFields nodeName =
     (let accessionVersion = extractAccessionVersion nodeName in
      if metadata = [] then accessionVersion
      else (case findByAccession metadata accessionVersion of
              None \<Rightarrow> accessionVersion
            | Some metadataItem \<Rightarrow>
                join ''|'' (pushLabelFields metadataItem labelFields [accessionVersion])))"

text \<open>
  The specification's wording of the label: the defined, non-empty values of the label
  fields, in the order of the fields.
\<close>

definition presentValues :: "metadata_record \<Rightarrow> string list \<Rightarrow> string list" where
  "presentValues metadataItem labelFields =
     concat (map (\<lambda>field. case map_of metadataItem field of
                            None \<Rightarrow> []
                          | Some v \<Rightarrow> (if v = [] then [] else [v])) labelFields)"

subsection \<open>Search and colour lookup\<close>

text \<open>
  \<^verbatim>\<open>String.prototype.toLowerCase\<close> is a built-in of the language with the case mapping of
  Unicode behind it. The functions that call it take it as the argument
  \<open>toLowerCase\<close>. \<open>toLowerAscii\<close>, which agrees with it on strings of ASCII characters,
  serves for concrete evaluations.
\<close>

definition toLowerAscii :: "string \<Rightarrow> string" where
  "toLowerAscii s =
     map (\<lambda>c. case map_of (zip ''ABCDEFGHIJKLMNOPQRSTUVWXYZ'' ''abcdefghijklmnopqrstuvwxyz'') c of
                 None \<Rightarrow> c
               | Some l \<Rightarrow> l) s"

text \<open>\<^verbatim>\<open>haystack.includes(needle)\<close>: the needle starts at some position of the haystack.\<close>

fun includes_str :: "string \<Rightarrow> string \<Rightarrow> bool" where
  "includes_str [] needle = (needle = [])"
| "includes_str (c # cs) needle = (prefix needle (c # cs) \<or> includes_str cs needle)"

text \<open>\<^verbatim>\<open>Object.values\<close> of a record whose values are all consulted, in no particular order.\<close>

definition Object_values :: "metadata_record \<Rightarrow> string list" where
  "Object_values item = map snd item"

definition isNodeMatched ::
  "(string \<Rightarrow> string) \<Rightarrow> metadata_record list \<Rightarrow> string \<Rightarrow> string \<Rightarrow> bool" where
  "isNodeMatched toLowerCase metadata searchTerm nodeName =
     (let accessionVersion = extractAccessionVersion nodeName in
      if searchTerm = [] \<or> metadata = [] then False
      else (case findByAccession metadata accessionVersion of
              Some metadataItem \<Rightarrow>
                list_ex (\<lambda>val. includes_str (toLowerCase val) (toLowerCase searchTerm))
                  (Object_values metadataItem)
            | None \<Rightarrow> False))"

text \<open>
  Truthiness of a value that is a string, \<^verbatim>\<open>null\<close> or \<^verbatim>\<open>undefined\<close>: only a
  non-empty string is truthy.
\<close>

fun truthy :: "string option \<Rightarrow> bool" where
  "truthy None = False"
| "truthy (Some s) = (s \<noteq> [])"

text \<open>
  The colour map is an object from field values to colour strings; \<open>selectedField\<close> is
  \<open>None\<close> for \<^verbatim>\<open>null\<close>. What \<^verbatim>\<open>colorMap[value]\<close> yields when it is truthy is a colour
  string or, for a value that names a member of \<^verbatim>\<open>Object.prototype\<close> and has no entry
  of its own, that member.
\<close>

type_synonym color_map = "(string \<times> string) list"

datatype color = Css string | Member string

definition colorOf :: "color_map \<Rightarrow> string \<Rightarrow> color option" where
  "colorOf colorMap v =
     (case getProperty colorMap v of
        Own c \<Rightarrow> (if c \<noteq> [] then Some (Css c) else None)
      | Inherited \<Rightarrow> Some (Member v)
      | Missing \<Rightarrow> None)"

definition getNodeColor ::
  "metadata_record list \<Rightarrow> string option \<Rightarrow> color_map \<Rightarrow> string \<Rightarrow> color option" where
  "getNodeColor metadata selectedField colorMap nodeName =
     (let accessionVersion = extractAccessionVersion nodeName in
      case selectedField of
        None \<Rightarrow> None
      | Some field \<Rightarrow>
          if field = [] \<or> colorMap = [] \<or> metadata = [] then None
          else (case findByAccession metadata accessionVersion of
                  None \<Rightarrow> None
                | Some metadataItem \<Rightarrow>
                    if truthy (map_of metadataItem field)
                    then colorOf colorMap (the (map_of metadataItem field))
                    else None))"

subsection \<open>Tree nodes and leaf styles\<close>

text \<open>
  A node handle of the renderer: \<^verbatim>\<open>id\<close> and \<^verbatim>\<open>label\<close> may be missing, \<^verbatim>\<open>collapsed\<close>
  is false when missing, \<^verbatim>\<open>children\<close> is the ordered list of child nodes (empty when
  the property is missing).
\<close>

datatype tnode =
  TNode (nodeId: "string option") (nodeLabel: "string option") (isLeaf: bool)
    (collapsed: bool) (children: "tnode list")

text \<open>
  A style object. Each property is set or missing; \<open>styleKeys\<close> is
  \<^verbatim>\<open>Object.keys(style).length\<close>.
\<close>

record style =
  label :: "string option"
  fillColour :: "color option"
  strokeColour :: "string option"
  strokeWidth :: "nat option"

definition emptyStyle :: style where
  "emptyStyle = \<lparr>label = None, fillColour = None, strokeColour = None, strokeWidth = None\<rparr>"

definition styleKeys :: "style \<Rightarrow> nat" where
  "styleKeys st =
     (if label st = None then 0 else 1) + (if fillColour st = None then 0 else 1)
     + (if strokeColour st = None then 0 else 1) + (if strokeWidth st = None then 0 else 1)"

text \<open>The body of the loop of \<^verbatim>\<open>generateStyles\<close> for a leaf with a truthy id.\<close>

definition leafStyle ::
  "(string \<Rightarrow> string) \<Rightarrow> metadata_record list \<Rightarrow> string option \<Rightarrow> color_map \<Rightarrow> string
   \<Rightarrow> string list \<Rightarrow> string \<Rightarrow> style" where
  "leafStyle toLowerCase metadata selectedField colorMap searchTerm labelFields leafId =
     (let st = emptyStyle\<lparr>label := Some (buildNodeLabel metadata labelFields leafId)\<rparr> in
      if searchTerm \<noteq> [] \<and> isNodeMatched toLowerCase metadata searchTerm leafId
      then st\<lparr>fillColour := Some (Css ''#ff0000''), strokeColour := Some ''#cc0000'',
              strokeWidth := Some 2\<rparr>
      else (case getNodeColor metadata selectedField colorMap leafId of
              Some c \<Rightarrow> st\<lparr>fillColour := Some c\<rparr>
            | None \<Rightarrow> st))"

text \<open>
  The style map holds the own properties of \<^verbatim>\<open>styles\<close>. \<^verbatim>\<open>styles[leaf.id] = style\<close>
  adds or replaces the entry of the id, except for the id \<^verbatim>\<open>__proto__\<close>, where it
  replaces the prototype of \<^verbatim>\<open>styles\<close> and leaves the own properties as they are.
\<close>

definition setStyle :: "string \<Rightarrow> style \<Rightarrow> (string \<rightharpoonup> style) \<Rightarrow> (string \<rightharpoonup> style)" where
  "setStyle k st styles = (if k = ''__proto__'' then styles else styles(k \<mapsto> st))"

fun styleLeaves ::
  "(string \<Rightarrow> string) \<Rightarrow> metadata_record list \<Rightarrow> string option \<Rightarrow> color_map \<Rightarrow> string
   \<Rightarrow> string list \<Rightarrow> tnode list \<Rightarrow> (string \<rightharpoonup> style) \<Rightarrow> (string \<rightharpoonup> style)" where
  "styleLeaves toLowerCase metadata selectedField colorMap searchTerm labelFields [] styles =
     styles"
| "styleLeaves toLowerCase metadata selectedField colorMap searchTerm labelFields
     (leaf # leaves) styles =
     (if truthy (nodeId leaf) then
        (let st = leafStyle toLowerCase metadata selectedField colorMap searchTerm labelFields
                    (the (nodeId leaf)) in
         if styleKeys st > 0
         then styleLeaves toLowerCase metadata selectedField colorMap searchTerm labelFields
                leaves (setStyle (the (nodeId leaf)) st styles)
         else styleLeaves toLowerCase metadata selectedField colorMap searchTerm labelFields
                leaves styles)
      else styleLeaves toLowerCase metadata selectedField colorMap searchTerm labelFields
             leaves styles)"

definition generateStyles ::
  "(string \<Rightarrow> string) \<Rightarrow> metadata_record list \<Rightarrow> string option \<Rightarrow> color_map \<Rightarrow> string
   \<Rightarrow> string list \<Rightarrow> tnode list \<Rightarrow> (string \<rightharpoonup> style)" where
  "generateStyles toLowerCase metadata selectedField colorMap searchTerm labelFields leaves =
     (if leaves = [] then Map.empty
      else styleLeaves toLowerCase metadata selectedField colorMap searchTerm labelFields
             leaves Map.empty)"

subsection \<open>Pie-chart metadata for the renderer\<close>

text \<open>
  \<^verbatim>\<open>createMetadataForPieCharts\<close> builds an object keyed by accession; each value is an
  object with the single property \<^verbatim>\<open>[selectedField]: item[selectedField]\<close>, held as the
  pair of the field and the value.
\<close>

fun indexForPieCharts ::
  "string \<Rightarrow> metadata_record list \<Rightarrow> (string \<times> string \<times> string) list
   \<Rightarrow> (string \<times> string \<times> string) list" where
  "indexForPieCharts field [] pieMetadata = pieMetadata"
| "indexForPieCharts field (item # items) pieMetadata =
     (if truthy (map_of item ''accessionVersion'') \<and> field \<noteq> [] \<and> truthy (map_of item field)
      then indexForPieCharts field items
             (setProperty (the (map_of item ''accessionVersion''))
                (field, the (map_of item field)) pieMetadata)
      else indexForPieCharts field items pieMetadata)"

definition createMetadataForPieCharts ::
  "metadata_record list \<Rightarrow> string option \<Rightarrow> (string \<times> string \<times> string) list" where
  "createMetadataForPieCharts metadata selectedField =
     (case selectedField of
        None \<Rightarrow> []
      | Some field \<Rightarrow> (if field = [] then [] else indexForPieCharts field metadata []))"

subsection \<open>Pie charts of internal nodes\<close>

fun getDescendantLeaves :: "tnode \<Rightarrow> tnode list" where
  "getDescendantLeaves (TNode i l leaf coll cs) =
     (if leaf then [TNode i l leaf coll cs] else concat (map getDescendantLeaves cs))"

text \<open>\<^verbatim>\<open>leaf.id || leaf.label || ''\<close>\<close>

definition leafName :: "tnode \<Rightarrow> string" where
  "leafName leaf =
     (if truthy (nodeId leaf) then the (nodeId leaf)
      else if truthy (nodeLabel leaf) then the (nodeLabel leaf)
      else [])"

text \<open>
  A value stored in \<^verbatim>\<open>counts\<close>. It is a number, unless the counted field value names a
  member of \<^verbatim>\<open>Object.prototype\<close>: then \<^verbatim>\<open>counts[value] || 0\<close> is that member, and adding
  1 to it gives a string, the text of the member followed by \<open>1\<close>. \<open>MemberText k m\<close> is
  the text of the member \<open>k\<close> followed by \<open>m\<close> digits \<open>1\<close>.
\<close>

datatype tally = Count nat | MemberText string nat

text \<open>\<^verbatim>\<open>(counts[value] || 0) + 1\<close>, from what the read of \<^verbatim>\<open>counts[value]\<close> yields.\<close>

fun increment :: "tally slot \<Rightarrow> string \<Rightarrow> tally" where
  "increment (Own (Count n)) v = Count (n + 1)"
| "increment (Own (MemberText k m)) v = MemberText k (m + 1)"
| "increment Inherited v = MemberText v 1"
| "increment Missing v = Count 1"

text \<open>
  The \<^verbatim>\<open>forEach\<close> over the descendants: a leaf is counted when its record exists and
  has a truthy value for the selected field. \<open>tot\<close> is the source's \<^verbatim>\<open>total\<close>.
\<close>

fun countLeaves ::
  "metadata_record list \<Rightarrow> string \<Rightarrow> tnode list \<Rightarrow> (string \<times> tally) list \<times> nat
   \<Rightarrow> (string \<times> tally) list \<times> nat" where
  "countLeaves metadata field [] (counts, tot) = (counts, tot)"
| "countLeaves metadata field (leaf # leaves) (counts, tot) =
     (let accessionVersion = extractAccessionVersion (leafName leaf) in
      case findByAccession metadata accessionVersion of
        None \<Rightarrow> countLeaves metadata field leaves (counts, tot)
      | Some metadataItem \<Rightarrow>
          if truthy (map_of metadataItem field) then
            (let v = the (map_of metadataItem field) in
             countLeaves metadata field leaves
               (setProperty v (increment (getProperty counts v) v) counts, tot + 1))
          else countLeaves metadata field leaves (counts, tot))"

text \<open>
  A pie segment. The source computes proportions and angles in double precision; the
  model computes the finite ones exactly. A count that is a string is no numeral, so as
  a number it is \<^verbatim>\<open>NaN\<close>.
\<close>

fun tallyNumber :: "tally \<Rightarrow> number" where
  "tallyNumber (Count n) = Finite (real n)"
| "tallyNumber (MemberText k m) = NaN"

text \<open>The number held by a count that is a number, for adding the counts up.\<close>

fun tallyCount :: "tally \<Rightarrow> nat" where
  "tallyCount (Count n) = n"
| "tallyCount (MemberText k m) = 0"

record segment =
  startAngle :: number
  endAngle :: number
  segColor :: color
  segValue :: string
  segCount :: tally
  proportion :: number

fun pushSegments ::
  "color_map \<Rightarrow> nat \<Rightarrow> (string \<times> tally) list \<Rightarrow> number \<Rightarrow> segment list \<Rightarrow> segment list" where
  "pushSegments colorMap tot [] currentAngle segments = segments"
| "pushSegments colorMap tot ((v, c) # entries) currentAngle segments =
     (let prop = num_div (tallyNumber c) (Finite (real tot));
          angle = num_mul (num_mul prop (Finite 2)) (Finite pi);
          col = (case colorOf colorMap v of Some cl \<Rightarrow> cl | None \<Rightarrow> Css ''#cccccc'')
      in pushSegments colorMap tot entries (num_add currentAngle angle)
           (segments @ [\<lparr>startAngle = currentAngle, endAngle = num_add currentAngle angle,
                          segColor = col, segValue = v, segCount = c, proportion = prop\<rparr>]))"

definition calculatePieChartData ::
  "metadata_record list \<Rightarrow> string option \<Rightarrow> color_map \<Rightarrow> tnode list \<Rightarrow> segment list" where
  "calculatePieChartData metadata selectedField colorMap descendants =
     (case selectedField of
        None \<Rightarrow> []
      | Some field \<Rightarrow>
          if field = [] \<or> metadata = [] then []
          else (case countLeaves metadata field descendants ([], 0) of
                  (counts, tot) \<Rightarrow>
                    if tot = 0 then []
                    else pushSegments colorMap tot (Object_entries counts) (Finite 0) []))"

text \<open>
  The specification's wording of the aggregation: the values counted for the
  descendants, in traversal order, and the distinct elements of a list in the order of
  their first occurrence.
\<close>

definition countedValues :: "metadata_record list \<Rightarrow> string \<Rightarrow> tnode list \<Rightarrow> string list" where
  "countedValues metadata field descendants =
     concat (map (\<lambda>leaf.
        case findByAccession metadata (extractAccessionVersion (leafName leaf)) of
          None \<Rightarrow> []
        | Some item \<Rightarrow> (case map_of item field of
                          None \<Rightarrow> []
                        | Some v \<Rightarrow> (if v = [] then [] else [v]))) descendants)"

definition firstEncountered :: "'a list \<Rightarrow> 'a list" where
  "firstEncountered xs = rev (remdups (rev xs))"

text \<open>
  A list of segments tiles the arc from \<open>a\<close> to \<open>b\<close> when the first segment starts at
  \<open>a\<close>, every segment starts where the one before it ends, and the last one ends at
  \<open>b\<close>.
\<close>

fun tiles :: "number \<Rightarrow> segment list \<Rightarrow> number \<Rightarrow> bool" where
  "tiles a [] b = (a = b)"
| "tiles a (s # ss) b = (startAngle s = a \<and> tiles (endAngle s) ss b)"

subsection \<open>Tooltip\<close>

text \<open>
  The tooltip state: the fields that decide the position, extended by the content that
  \<^verbatim>\<open>showNodeTooltip\<close> stores. (\<^verbatim>\<open>dragStartX\<close> and \<^verbatim>\<open>dragStartY\<close>, which only the drag
  handlers read, are left out.) Positions are numbers of pixels in double precision;
  every sum and difference of the source is rounded by \<open>roundDouble\<close>.
\<close>

record tooltip =
  visible :: bool
  posX :: real
  posY :: real
  isDragging :: bool
  dragOffsetX :: real
  dragOffsetY :: real

record nodeTooltip = tooltip +
  tipNode :: "tnode option"
  nodeType :: string
  isInternal :: bool
  isCollapsed :: bool
  tipMetadata :: "metadata_record option"
  pieChartData :: "segment list option"
  descendantCount :: nat

text \<open>
  \<open>rect\<close> is the pair of \<^verbatim>\<open>rect.left\<close> and \<^verbatim>\<open>rect.top\<close> of the canvas, \<open>None\<close> when there
  is no canvas element.
\<close>

definition showNodeTooltip ::
  "metadata_record list \<Rightarrow> string option \<Rightarrow> color_map \<Rightarrow> (real \<times> real) option \<Rightarrow> tnode
   \<Rightarrow> real \<Rightarrow> real \<Rightarrow> nodeTooltip \<Rightarrow> nodeTooltip" where
  "showNodeTooltip metadata selectedField colorMap rect node canvasX canvasY tip =
     (case rect of
        None \<Rightarrow> tip
      | Some (rectLeft, rectTop) \<Rightarrow>
          (let globalX = roundDouble (roundDouble (rectLeft + canvasX) + 10);
               globalY = roundDouble (roundDouble (rectTop + canvasY) - 10);
               tip1 = tip\<lparr>visible := True, posX := globalX, posY := globalY,
                          tipNode := Some node, isInternal := \<not> isLeaf node\<rparr>
           in if isLeaf node then
                tip1\<lparr>nodeType := ''Leaf Node'', isCollapsed := False,
                      tipMetadata :=
                        findByAccession metadata (extractAccessionVersion (leafName node)),
                      pieChartData := None, descendantCount := 0\<rparr>
              else
                (let descendants = getDescendantLeaves node;
                     pieData = calculatePieChartData metadata selectedField colorMap descendants
                 in tip1\<lparr>nodeType := ''Internal Node'', isCollapsed := collapsed node,
                          tipMetadata := None, descendantCount := length descendants,
                          pieChartData := (if pieData \<noteq> [] then Some pieData else None)\<rparr>)))"

text \<open>
  The style object computed from the tooltip state. \<open>innerWidth\<close> and \<open>innerHeight\<close> are
  the viewport size read from \<^verbatim>\<open>window\<close>, which the browser reports as integers.
  \<^verbatim>\<open>left\<close> and \<^verbatim>\<open>top\<close> are kept as numbers instead of the strings with the \<^verbatim>\<open>px\<close>
  suffix.
\<close>

record tooltipStyle =
  stylePosition :: string
  styleLeft :: real
  styleTop :: real
  zIndex :: nat
  cursor :: string

definition nodeTooltipGlobalStyle :: "'a tooltip_scheme \<Rightarrow> int \<Rightarrow> int \<Rightarrow> tooltipStyle" where
  "nodeTooltipGlobalStyle t innerWidth innerHeight =
     (let x = roundDouble (posX t + dragOffsetX t);
          y = roundDouble (posY t + dragOffsetY t);
          tooltipWidth = 300;
          tooltipHeight = 200;
          x1 = (if \<not> isDragging t
                then max 10 (if roundDouble (x + tooltipWidth) > of_int innerWidth
                             then roundDouble (roundDouble (of_int innerWidth - tooltipWidth) - 10)
                             else x)
                else x);
          y1 = (if \<not> isDragging t
                then max 10 (if roundDouble (y + tooltipHeight) > of_int innerHeight
                             then roundDouble (roundDouble (of_int innerHeight - tooltipHeight) - 10)
                             else y)
                else y)
      in \<lparr>stylePosition = ''fixed'', styleLeft = x1, styleTop = y1, zIndex = 2000,
          cursor = (if isDragging t then ''grabbing'' else ''default'')\<rparr>)"

subsection \<open>Scale bar\<close>

text \<open>
  What a renderer method returns to the component: \<^verbatim>\<open>undefined\<close> or a number.
  \<open>toNumber\<close> is the conversion JavaScript applies to an operand of \<^verbatim>\<open>*\<close> and to an
  argument of \<^verbatim>\<open>Math.pow\<close>.
\<close>

datatype jsvalue = Undefined | Number number

fun toNumber :: "jsvalue \<Rightarrow> number" where
  "toNumber Undefined = NaN"
| "toNumber (Number n) = n"

text \<open>A call either throws or returns a value.\<close>

datatype 'a completion = Throw | Return 'a

text \<open>
  The renderer instance, as far as \<^verbatim>\<open>calculateScaleBar\<close> reads it: each of the two methods
  is missing (\<open>None\<close>) or, when called, completes in one way.
\<close>

record renderer =
  getBranchScale :: "jsvalue completion option"
  getZoom :: "jsvalue completion option"

record scaleBar =
  scaleBarValue :: number
  scaleBarLength :: number

text \<open>The computation of the \<^verbatim>\<open>try\<close> block once both values have been read.\<close>

definition niceScaleBar :: "jsvalue \<Rightarrow> jsvalue \<Rightarrow> scaleBar" where
  "niceScaleBar branchScale zoom =
     (let currentScale = num_mul (toNumber branchScale) (num_pow 2 (toNumber zoom));
          targetPixelLength = Finite 100;
          actualDistance = num_div targetPixelLength currentScale;
          magnitude = num_pow 10 (num_floor (num_log10 actualDistance));
          normalized = num_div actualDistance magnitude;
          niceDistance =
            (if num_le normalized (Finite 1) then magnitude
             else if num_le normalized (Finite 2) then num_mul (Finite 2) magnitude
             else if num_le normalized (Finite 5) then num_mul (Finite 5) magnitude
             else num_mul (Finite 10) magnitude)
      in \<lparr>scaleBarValue = niceDistance, scaleBarLength = num_mul niceDistance currentScale\<rparr>)"

text \<open>The \<^verbatim>\<open>try\<close> block: it completes by \<open>Throw\<close> when one of the two calls throws.\<close>

definition scaleBarTry :: "renderer \<Rightarrow> scaleBar completion" where
  "scaleBarTry tree =
     (case (case getBranchScale tree of None \<Rightarrow> Return (Number (Finite 1)) | Some r \<Rightarrow> r) of
        Throw \<Rightarrow> Throw
      | Return branchScale \<Rightarrow>
          (case (case getZoom tree of None \<Rightarrow> Return (Number (Finite 0)) | Some r \<Rightarrow> r) of
             Throw \<Rightarrow> Throw
           | Return zoom \<Rightarrow> Return (niceScaleBar branchScale zoom)))"

text \<open>
  \<^verbatim>\<open>calculateScaleBar\<close> takes the renderer instance (\<open>None\<close> when there is none) and the
  current scale bar, and completes with the new scale bar.
\<close>

definition calculateScaleBar :: "renderer option \<Rightarrow> scaleBar \<Rightarrow> scaleBar completion" where
  "calculateScaleBar treeInstance bar =
     (case treeInstance of
        None \<Rightarrow> Return bar
      | Some tree \<Rightarrow>
          (case scaleBarTry tree of
             Return bar' \<Rightarrow> Return bar'
           | Throw \<Rightarrow> Return \<lparr>scaleBarValue = Finite (1 / 10), scaleBarLength = Finite 100\<rparr>))"

subsection \<open>Legend colours\<close>

text \<open>
  A string is read through \<^verbatim>\<open>charCodeAt\<close>, so the argument of \<open>generateColor\<close> is the
  list of its UTF-16 code units. \<open>hash\<close> is a number whose value is always an integer.
  \<^verbatim>\<open>hash << 5\<close> converts it to a 32-bit signed integer and shifts it within 32 bits;
  the subtraction and the addition around it are double-precision arithmetic, whose
  results \<open>roundInt\<close> rounds: integers below \<open>2\<^sup>5\<^sup>3\<close> in absolute value are kept as they
  are, larger ones are rounded to the nearest double.
\<close>

definition roundInt :: "int \<Rightarrow> int" where
  "roundInt x = \<lfloor>roundDouble (of_int x)\<rfloor>"

definition shiftLeft32 :: "int \<Rightarrow> nat \<Rightarrow> int" where
  "shiftLeft32 a n = sint (push_bit (n mod 32) (word_of_int a :: 32 word))"

fun hashLoop :: "16 word list \<Rightarrow> int \<Rightarrow> int" where
  "hashLoop [] hash = hash"
| "hashLoop (c # cs) hash =
     hashLoop cs (roundInt (uint c + roundInt (shiftLeft32 hash 5 - hash)))"

text \<open>The operator \<^verbatim>\<open>%\<close> on integers: the result has the sign of the dividend.\<close>

definition remainder :: "int \<Rightarrow> int \<Rightarrow> int" where
  "remainder a n = sgn a * (\<bar>a\<bar> mod \<bar>n\<bar>)"

text \<open>The decimal text of an integer, as a template literal prints it.\<close>

fun natToString :: "nat \<Rightarrow> string" where
  "natToString n =
     (if n < 10 then [''0123456789'' ! n]
      else natToString (n div 10) @ [''0123456789'' ! (n mod 10)])"

declare natToString.simps [simp del]

definition numberToString :: "int \<Rightarrow> string" where
  "numberToString i = (if i < 0 then ''-'' @ natToString (nat (- i)) else natToString (nat i))"

definition generateColor :: "16 word list \<Rightarrow> string" where
  "generateColor str =
     (let hash = hashLoop str 0 in
      ''hsl('' @ numberToString (remainder hash 360) @ '', 100%, 75%)'')"

text \<open>
  The specification's wording of the hash. \<open>hashIter\<close> iterates
  \<open>hash = charCode + ((hash << 5) - hash)\<close> on integers without any rounding, the shift
  alone being taken in 32 bits. \<open>hash32Loop\<close> is the 32-bit signed rolling hash, every
  step of which stays within 32 bits, and \<open>colorOfHash32\<close> the colour made from it.
\<close>

fun hashIter :: "16 word list \<Rightarrow> int \<Rightarrow> int" where
  "hashIter [] h = h"
| "hashIter (c # cs) h = hashIter cs (uint c + (shiftLeft32 h 5 - h))"

fun hash32Loop :: "16 word list \<Rightarrow> 32 word \<Rightarrow> 32 word" where
  "hash32Loop [] h = h"
| "hash32Loop (c # cs) h = hash32Loop cs (ucast c + (push_bit 5 h - h))"

definition colorOfHash32 :: "16 word list \<Rightarrow> string" where
  "colorOfHash32 str =
     ''hsl('' @ numberToString (remainder (sint (hash32Loop str 0)) 360) @ '', 100%, 75%)''"

section \<open>Rounding\<close>

lemma roundEven_of_int: "roundEven (of_int k) = k"
  by (simp add: roundEven_def)

text \<open>Integers below \<open>2\<^sup>5\<^sup>3\<close> in absolute value are doubles: rounding keeps them.\<close>

lemma roundDouble_of_int:
  assumes "\<bar>n\<bar> < 2 ^ 53"
  shows "roundDouble (of_int n) = of_int n"
proof (cases "n = 0")
  case True
  then show ?thesis by (simp add: roundDouble_def)
next
  case False
  let ?x = "of_int n :: real"
  define e where "e = max \<lfloor>log 2 \<bar>?x\<bar>\<rfloor> (- 1022)"
  define q :: real where "q = 2 powr (of_int e - 52)"
  have pos: "0 < \<bar>?x\<bar>" using False by simp
  have "\<bar>?x\<bar> < 2 ^ 53"
  proof -
    have "\<bar>?x\<bar> = of_int \<bar>n\<bar>" by simp
    also have "\<dots> < of_int (2 ^ 53)" using assms by (simp only: of_int_less_iff)
    finally show ?thesis by simp
  qed
  then have "\<bar>?x\<bar> < 2 powr 53"
    by (simp add: powr_realpow [of 2 53, simplified])
  then have "log 2 \<bar>?x\<bar> < 53"
    using pos by (simp add: log_less_iff)
  then have "\<lfloor>log 2 \<bar>?x\<bar>\<rfloor> \<le> 52"
    by linarith
  then have e52: "e \<le> 52" by (simp add: e_def)
  have qpos: "0 < q" by (simp add: q_def)
  have "1 / q = 2 powr (52 - of_int e)"
    by (simp add: q_def powr_diff)
  also have "52 - of_int e = real (nat (52 - e))"
    using e52 by simp
  also have "2 powr real (nat (52 - e)) = 2 ^ nat (52 - e)"
    by (simp add: powr_realpow)
  finally have inv: "1 / q = 2 ^ nat (52 - e)" .
  have "?x / q = ?x * (1 / q)" by simp
  also have "\<dots> = of_int (n * 2 ^ nat (52 - e))"
    by (simp add: inv)
  finally have "roundEven (?x / q) = n * 2 ^ nat (52 - e)"
    by (simp only: roundEven_of_int)
  then have "q * of_int (roundEven (?x / q)) = q * (?x * (1 / q))"
    by (simp add: inv)
  also have "\<dots> = ?x" using qpos by simp
  finally have "q * of_int (roundEven (?x / q)) = ?x" .
  then show ?thesis
    using False by (simp add: roundDouble_def Let_def e_def [symmetric] q_def [symmetric])
qed

lemma roundInt_exact: "\<bar>n\<bar> < 2 ^ 53 \<Longrightarrow> roundInt n = n"
  by (simp add: roundInt_def roundDouble_of_int)

lemma roundDouble_numeral [simp]:
  "(numeral k :: int) < 2 ^ 53 \<Longrightarrow> roundDouble (numeral k) = numeral k"
  using roundDouble_of_int [of "numeral k"] by simp

lemma roundDouble_zero [simp]: "roundDouble 0 = 0"
  by (simp add: roundDouble_def)

lemma roundDouble_one [simp]: "roundDouble 1 = 1"
  using roundDouble_of_int [of 1] by simp

section \<open>Lookup by accession\<close>

lemma split_not_Nil: "split sep s \<noteq> []"
  by (induction s) (auto split: list.splits)

lemma hd_split: "hd (split sep s) = takeWhile (\<lambda>c. c \<noteq> sep) s"
proof (induction s)
  case Nil
  show ?case by simp
next
  case (Cons c cs)
  then show ?case
    using split_not_Nil [of sep cs] by (cases "split sep cs") auto
qed

lemma extractAccessionVersion_accessionKey: "extractAccessionVersion s = accessionKey s"
  using hd_split [of "CHR ''|''" s] split_not_Nil [of "CHR ''|''" s]
  by (cases "split (CHR ''|'') s") (auto simp: extractAccessionVersion_def accessionKey_def)

text \<open>
  The lookup returns the first record of the table that carries the accession, and
  nothing when no record carries it.
\<close>

lemma findByAccession_first:
  "map_of item ''accessionVersion'' = Some acc \<Longrightarrow>
   \<forall>p \<in> set pre. map_of p ''accessionVersion'' \<noteq> Some acc \<Longrightarrow>
   findByAccession (pre @ item # post) acc = Some item"
  by (induction pre) (auto simp: findByAccession_def)

lemma findByAccession_none:
  "\<forall>item \<in> set metadata. map_of item ''accessionVersion'' \<noteq> Some acc \<Longrightarrow>
   findByAccession metadata acc = None"
  by (induction metadata) (auto simp: findByAccession_def)


section \<open>Labels\<close>

lemma pushLabelFields_presentValues:
  "pushLabelFields item fs parts = parts @ presentValues item fs"
  by (induction fs arbitrary: parts) (auto simp: presentValues_def split: option.splits)

lemma prefix_join_Cons: "prefix p (join sep (p # ps))"
  by (cases ps) auto

lemma buildNodeLabel_found:
  assumes "findByAccession metadata (accessionKey nodeName) = Some item"
  shows "buildNodeLabel metadata labelFields nodeName
         = join ''|'' (accessionKey nodeName # presentValues item labelFields)"
proof -
  from assms have "metadata \<noteq> []"
    by (auto simp: findByAccession_def)
  with assms show ?thesis
    by (simp add: buildNodeLabel_def Let_def pushLabelFields_presentValues
        extractAccessionVersion_accessionKey)
qed

lemma buildNodeLabel_missing:
  assumes "findByAccession metadata (accessionKey nodeName) = None"
  shows "buildNodeLabel metadata labelFields nodeName = accessionKey nodeName"
  using assms by (simp add: buildNodeLabel_def Let_def extractAccessionVersion_accessionKey)

text \<open>
  Claim C2. For every node id, \<open>buildNodeLabel\<close> returns a string that starts with the
  accession, which is the part of the id before the first \<open>|\<close> (the whole id when it has
  none). When the metadata list holds a record with that accessionVersion, the label is
  the accession followed by the defined, non-empty values that this record (the first
  one in the list, should there be several) has for the label fields, in the order the
  fields were supplied, joined with \<open>|\<close>. When no record of the list has that
  accessionVersion, when the list is empty or when there are no label fields, the label
  is the accession alone.
\<close>

theorem buildNodeLabel_spec:
  "extractAccessionVersion nodeName = accessionKey nodeName
   \<and> prefix (accessionKey nodeName) (buildNodeLabel metadata labelFields nodeName)
   \<and> (\<forall>pre item post.
         metadata = pre @ item # post
         \<and> map_of item ''accessionVersion'' = Some (accessionKey nodeName)
         \<and> (\<forall>p \<in> set pre. map_of p ''accessionVersion'' \<noteq> Some (accessionKey nodeName))
         \<longrightarrow> buildNodeLabel metadata labelFields nodeName
               = join ''|'' (accessionKey nodeName # presentValues item labelFields))
   \<and> ((\<forall>item \<in> set metadata. map_of item ''accessionVersion'' \<noteq> Some (accessionKey nodeName))
        \<longrightarrow> buildNodeLabel metadata labelFields nodeName = accessionKey nodeName)
   \<and> (metadata = [] \<longrightarrow>
        buildNodeLabel metadata labelFields nodeName = accessionKey nodeName)
   \<and> (labelFields = [] \<longrightarrow>
        buildNodeLabel metadata labelFields nodeName = accessionKey nodeName)"
proof -
  let ?acc = "accessionKey nodeName"
  let ?label = "buildNodeLabel metadata labelFields nodeName"
  have found: "?label = join ''|'' (?acc # presentValues item labelFields)"
    if "metadata = pre @ item # post" "map_of item ''accessionVersion'' = Some ?acc"
      "\<forall>p \<in> set pre. map_of p ''accessionVersion'' \<noteq> Some ?acc" for pre item post
    using buildNodeLabel_found [of metadata nodeName item labelFields]
      findByAccession_first [of item ?acc pre post] that by simp
  have missing: "?label = ?acc"
    if "\<forall>item \<in> set metadata. map_of item ''accessionVersion'' \<noteq> Some ?acc"
    using buildNodeLabel_missing findByAccession_none [OF that] by simp
  have starts: "prefix ?acc ?label"
  proof (cases "findByAccession metadata ?acc")
    case None
    then show ?thesis by (simp add: buildNodeLabel_missing)
  next
    case (Some item)
    then show ?thesis by (simp add: buildNodeLabel_found prefix_join_Cons)
  qed
  have no_fields: "?label = ?acc" if "labelFields = []"
  proof (cases "findByAccession metadata ?acc")
    case None
    then show ?thesis by (simp add: buildNodeLabel_missing)
  next
    case (Some item)
    from buildNodeLabel_found [OF Some, of labelFields] that show ?thesis
      by (simp add: presentValues_def)
  qed
  have empty: "?label = ?acc" if "metadata = []"
    using that missing by simp
  show ?thesis
    using extractAccessionVersion_accessionKey [of nodeName] starts found missing
      no_fields empty
    by blast
qed

theorem buildNodeLabel_spec_witness:
  "accessionKey ''A1|S1'' = ''A1''
   \<and> map_of [(''accessionVersion'', ''A2''), (''SampleID'', ''S2''), (''Country'', ''Peru'')]
       ''accessionVersion'' \<noteq> Some ''A1''
   \<and> buildNodeLabel
     [[(''accessionVersion'', ''A2''), (''SampleID'', ''S2''), (''Country'', ''Peru'')],
      [(''accessionVersion'', ''A1''), (''SampleID'', ''S1''), (''Country'', ''USA'')]]
     [''SampleID'', ''Country''] ''A1|S1'' = ''A1|S1|USA''
   \<and> buildNodeLabel
     [[(''accessionVersion'', ''A2''), (''SampleID'', ''S2''), (''Country'', ''Peru'')],
      [(''accessionVersion'', ''A1''), (''SampleID'', ''S1''), (''Country'', ''USA'')]]
     [''Country'', ''SampleID''] ''A1|S1'' = ''A1|USA|S1''
   \<and> buildNodeLabel
     [[(''accessionVersion'', ''A2''), (''SampleID'', ''S2''), (''Country'', ''Peru'')],
      [(''accessionVersion'', ''A1''), (''SampleID'', ''S1''), (''Country'', ''USA'')]]
     [] ''A1|S1'' = ''A1''
   \<and> buildNodeLabel
     [[(''accessionVersion'', ''A2''), (''SampleID'', ''S2''), (''Country'', ''Peru'')]]
     [''SampleID'', ''Country''] ''A1|S1'' = ''A1''
   \<and> buildNodeLabel [] [''SampleID'', ''Country''] ''A1|S1'' = ''A1''"
proof -
  let ?r2 = "[(''accessionVersion'', ''A2''), (''SampleID'', ''S2''), (''Country'', ''Peru'')]"
  let ?r1 = "[(''accessionVersion'', ''A1''), (''SampleID'', ''S1''), (''Country'', ''USA'')]"
  have acc: "accessionKey ''A1|S1'' = ''A1''"
    by (simp add: accessionKey_def)
  have h: "[?r2, ?r1] = [?r2] @ ?r1 # []
           \<and> map_of ?r1 ''accessionVersion'' = Some (accessionKey ''A1|S1'')
           \<and> (\<forall>p \<in> set [?r2]. map_of p ''accessionVersion'' \<noteq> Some (accessionKey ''A1|S1''))"
    by (simp add: acc)
  have n: "\<forall>item \<in> set [?r2]. map_of item ''accessionVersion'' \<noteq> Some (accessionKey ''A1|S1'')"
    by (simp add: acc)
  have l1: "buildNodeLabel [?r2, ?r1] [''SampleID'', ''Country''] ''A1|S1''
        = join ''|'' (accessionKey ''A1|S1'' # presentValues ?r1 [''SampleID'', ''Country''])"
    using buildNodeLabel_spec [of "''A1|S1''" "[?r2, ?r1]" "[''SampleID'', ''Country'']"] h
    by blast
  have l2: "buildNodeLabel [?r2, ?r1] [''Country'', ''SampleID''] ''A1|S1''
        = join ''|'' (accessionKey ''A1|S1'' # presentValues ?r1 [''Country'', ''SampleID''])"
    using buildNodeLabel_spec [of "''A1|S1''" "[?r2, ?r1]" "[''Country'', ''SampleID'']"] h
    by blast
  have l3: "buildNodeLabel [?r2, ?r1] [] ''A1|S1'' = accessionKey ''A1|S1''"
    using buildNodeLabel_spec [of "''A1|S1''" "[?r2, ?r1]" "[]"] by blast
  have l4: "buildNodeLabel [?r2] [''SampleID'', ''Country''] ''A1|S1'' = accessionKey ''A1|S1''"
    using buildNodeLabel_spec [of "''A1|S1''" "[?r2]" "[''SampleID'', ''Country'']"] n
    by blast
  have l5: "buildNodeLabel [] [''SampleID'', ''Country''] ''A1|S1'' = accessionKey ''A1|S1''"
    using buildNodeLabel_spec [of "''A1|S1''" "[]" "[''SampleID'', ''Country'']"] by blast
  show ?thesis
    using l1 l2 l3 l4 l5 by (simp add: acc presentValues_def)
qed

section \<open>Search\<close>






section \<open>Leaf styles\<close>

lemma styleKeys_leafStyle: "styleKeys (leafStyle lc md sf cm q lfs i) > 0"
  by (simp add: leafStyle_def styleKeys_def emptyStyle_def Let_def split: option.splits)

lemma label_leafStyle: "label (leafStyle lc md sf cm q lfs i) = Some (buildNodeLabel md lfs i)"
  by (simp add: leafStyle_def emptyStyle_def Let_def split: option.splits)

lemma styleLeaves_lookup:
  "styleLeaves lc md sf cm q lfs leaves styles i =
     (if i \<noteq> [] \<and> i \<noteq> ''__proto__'' \<and> (\<exists>leaf \<in> set leaves. nodeId leaf = Some i)
      then Some (leafStyle lc md sf cm q lfs i) else styles i)"
proof (induction leaves arbitrary: styles)
  case Nil
  show ?case by simp
next
  case (Cons leaf leaves)
  show ?case
  proof (cases "nodeId leaf")
    case None
    then show ?thesis using Cons.IH by simp
  next
    case (Some j)
    then show ?thesis
      using Cons.IH by (auto simp: styleKeys_leafStyle Let_def setStyle_def)
  qed
qed

lemma generateStyles_lookup:
  "generateStyles lc md sf cm q lfs leaves i =
     (if i \<noteq> [] \<and> i \<noteq> ''__proto__'' \<and> (\<exists>leaf \<in> set leaves. nodeId leaf = Some i)
      then Some (leafStyle lc md sf cm q lfs i) else None)"
  by (simp add: generateStyles_def styleLeaves_lookup)

text \<open>
  The entries of the style map, for every list of leaves: the keys are the non-empty ids
  of the leaves other than \<^verbatim>\<open>__proto__\<close>, and every entry carries the label that
  \<open>buildNodeLabel\<close> gives for its id, whatever the search term and the colour map are.
\<close>

lemma generateStyles_entries:
  "dom (generateStyles lc metadata selectedField colorMap searchTerm labelFields leaves) =
     {i. i \<noteq> [] \<and> i \<noteq> ''__proto__'' \<and> (\<exists>leaf \<in> set leaves. nodeId leaf = Some i)}
   \<and> (\<forall>i st. generateStyles lc metadata selectedField colorMap searchTerm labelFields leaves i
                = Some st \<longrightarrow>
         label st = Some (buildNodeLabel metadata labelFields i))"
  by (auto simp: generateStyles_lookup label_leafStyle dom_def split: if_splits)

text \<open>
  Claim C10 says that the style map has an entry for every leaf whose id is non-empty.
  For a leaf whose id is \<^verbatim>\<open>__proto__\<close> the assignment \<^verbatim>\<open>styles[leaf.id] = style\<close> adds
  no entry: of the two leaves \<^verbatim>\<open>__proto__\<close> and \<open>A1\<close>, both with a non-empty id, only
  \<open>A1\<close> is a key of the result, with its label.
\<close>

theorem generateStyles_proto_leaf:
  "generateStyles toLowerAscii [[(''accessionVersion'', ''A1''), (''Country'', ''USA'')]]
     None [] [] [''Country'']
     [TNode (Some ''__proto__'') None True False [], TNode (Some ''A1'') None True False []]
     ''__proto__'' = None
   \<and> generateStyles toLowerAscii [[(''accessionVersion'', ''A1''), (''Country'', ''USA'')]]
     None [] [] [''Country'']
     [TNode (Some ''__proto__'') None True False [], TNode (Some ''A1'') None True False []]
     ''A1''
     = Some \<lparr>label = Some ''A1|USA'', fillColour = None, strokeColour = None,
              strokeWidth = None\<rparr>
   \<and> dom (generateStyles toLowerAscii
            [[(''accessionVersion'', ''A1''), (''Country'', ''USA'')]]
            None [] [] [''Country'']
            [TNode (Some ''__proto__'') None True False [],
             TNode (Some ''A1'') None True False []]) = {''A1''}"
proof -
  let ?md = "[[(''accessionVersion'', ''A1''), (''Country'', ''USA'')]]"
  let ?leaves = "[TNode (Some ''__proto__'') None True False [],
                  TNode (Some ''A1'') None True False []]"
  let ?g = "generateStyles toLowerAscii ?md None [] [] [''Country''] ?leaves"
  have p: "?g ''__proto__'' = None"
    by (simp add: generateStyles_def setStyle_def leafStyle_def emptyStyle_def styleKeys_def
        getNodeColor_def)
  have a: "?g ''A1'' = Some \<lparr>label = Some ''A1|USA'', fillColour = None,
                              strokeColour = None, strokeWidth = None\<rparr>"
    by (simp add: generateStyles_def setStyle_def leafStyle_def emptyStyle_def styleKeys_def
        getNodeColor_def buildNodeLabel_def findByAccession_def extractAccessionVersion_def)
  have d: "dom ?g = {''A1''}"
    using generateStyles_entries [of toLowerAscii ?md None "[]" "[]" "[''Country'']" ?leaves]
    by auto
  from p a d show ?thesis by simp
qed

section \<open>Pie charts\<close>

lemma map_fst_putOwn:
  "map fst (putOwn k v ps) = (if k \<in> set (map fst ps) then map fst ps else map fst ps @ [k])"
  by (induction ps) auto

lemma map_fst_setProperty:
  "map fst (setProperty k v ps) =
     (if k = ''__proto__'' \<or> k \<in> set (map fst ps) then map fst ps else map fst ps @ [k])"
  by (simp add: setProperty_def map_fst_putOwn)

lemma remdups_drop_repeat: "x \<in> set B \<Longrightarrow> remdups (A @ x # B) = remdups (A @ B)"
  by (induction A) auto

lemma firstEncountered_repeat:
  "x \<in> set xs \<Longrightarrow> firstEncountered (xs @ x # ys) = firstEncountered (xs @ ys)"
  using remdups_drop_repeat [of x "rev xs" "rev ys"] by (simp add: firstEncountered_def)

lemma firstEncountered_distinct: "distinct xs \<Longrightarrow> firstEncountered xs = xs"
  by (simp add: firstEncountered_def distinct_remdups_id)

lemma distinct_firstEncountered: "distinct (firstEncountered xs)"
  by (simp add: firstEncountered_def)

lemma set_firstEncountered: "set (firstEncountered xs) = set xs"
  by (simp add: firstEncountered_def)

lemma countedValues_Cons:
  "countedValues md f (leaf # leaves) =
     (case findByAccession md (extractAccessionVersion (leafName leaf)) of
          None \<Rightarrow> []
        | Some item \<Rightarrow> (case map_of item f of
                          None \<Rightarrow> []
                        | Some v \<Rightarrow> (if v = [] then [] else [v]))) @ countedValues md f leaves"
  by (simp add: countedValues_def)

lemma countedValues_Nil: "countedValues md f [] = []"
  by (simp add: countedValues_def)

text \<open>
  The keys of \<^verbatim>\<open>counts\<close> after the loop: the counted values other than \<^verbatim>\<open>__proto__\<close>,
  each at the place of its first occurrence.
\<close>

lemma countLeaves_keys:
  "distinct (map fst counts) \<Longrightarrow>
   map fst (fst (countLeaves md f leaves (counts, tot)))
     = firstEncountered
         (map fst counts @ filter (\<lambda>v. v \<noteq> ''__proto__'') (countedValues md f leaves))"
proof (induction leaves arbitrary: counts tot)
  case Nil
  then show ?case by (simp add: countedValues_Nil firstEncountered_distinct)
next
  case (Cons leaf leaves)
  show ?case
  proof (cases "findByAccession md (extractAccessionVersion (leafName leaf))")
    case None
    then show ?thesis using Cons by (simp add: countedValues_Cons)
  next
    case (Some item)
    show ?thesis
    proof (cases "map_of item f")
      case None
      then show ?thesis using Some Cons by (simp add: countedValues_Cons)
    next
      case (Some v) note v = this
      show ?thesis
      proof (cases "v = []")
        case True
        then show ?thesis using v \<open>findByAccession md _ = Some item\<close> Cons
          by (simp add: countedValues_Cons)
      next
        case False
        let ?counts' = "setProperty v (increment (getProperty counts v) v) counts"
        let ?rest = "filter (\<lambda>v. v \<noteq> ''__proto__'') (countedValues md f leaves)"
        have d: "distinct (map fst ?counts')"
          using Cons.prems by (simp add: map_fst_setProperty)
        have step: "countLeaves md f (leaf # leaves) (counts, tot)
                    = countLeaves md f leaves (?counts', tot + 1)"
          using v False \<open>findByAccession md _ = Some item\<close> by (simp add: Let_def)
        have cv: "countedValues md f (leaf # leaves) = v # countedValues md f leaves"
          using v False \<open>findByAccession md _ = Some item\<close> by (simp add: countedValues_Cons)
        have "firstEncountered (map fst ?counts' @ ?rest)
              = firstEncountered
                  (map fst counts @ filter (\<lambda>v. v \<noteq> ''__proto__'') (v # countedValues md f leaves))"
        proof (cases "v = ''__proto__''")
          case True
          then show ?thesis by (simp add: map_fst_setProperty)
        next
          case np: False
          show ?thesis
          proof (cases "v \<in> set (map fst counts)")
            case True
            then show ?thesis
              using np firstEncountered_repeat [of v "map fst counts" ?rest]
              by (simp add: map_fst_setProperty)
          next
            case False
            then show ?thesis using np by (simp add: map_fst_setProperty)
          qed
        qed
        then show ?thesis using Cons.IH [OF d, of "tot + 1"] step cv by simp
      qed
    qed
  qed
qed

lemma countLeaves_total:
  "snd (countLeaves md f leaves (counts, tot)) = tot + length (countedValues md f leaves)"
proof (induction leaves arbitrary: counts tot)
  case Nil
  show ?case by (simp add: countedValues_Nil)
next
  case (Cons leaf leaves)
  show ?case
    using Cons.IH
    by (auto simp: countedValues_Cons Let_def split: option.splits)
qed

lemma map_segValue_pushSegments:
  "map segValue (pushSegments cm tot entries cur segs) = map segValue segs @ map fst entries"
  by (induction cm tot entries cur segs rule: pushSegments.induct) (simp_all add: Let_def)

lemma map_fst_Object_entries: "map fst (Object_entries obj) = ownKeyOrder (map fst obj)"
  by (simp add: Object_entries_def comp_def)

lemma ownKeyOrder_no_index: "\<forall>k \<in> set ks. \<not> isArrayIndex k \<Longrightarrow> ownKeyOrder ks = ks"
proof -
  assume a: "\<forall>k \<in> set ks. \<not> isArrayIndex k"
  then have "filter isArrayIndex ks = []" by (simp add: filter_empty_conv)
  moreover from a have "filter (\<lambda>k. \<not> isArrayIndex k) ks = ks" by (simp add: filter_id_conv)
  ultimately show ?thesis by (simp add: ownKeyOrder_def)
qed

lemma pie_values:
  "field \<noteq> [] \<Longrightarrow>
   map segValue (calculatePieChartData md (Some field) cm ds)
     = ownKeyOrder (firstEncountered
         (filter (\<lambda>v. v \<noteq> ''__proto__'') (countedValues md field ds)))"
proof (cases "md = []")
  case True
  then have "countedValues md field ds = []"
    by (simp add: countedValues_def findByAccession_def)
  with True show ?thesis
    by (simp add: calculatePieChartData_def firstEncountered_def ownKeyOrder_def)
next
  assume f: "field \<noteq> []"
  case False
  obtain counts tot where c: "countLeaves md field ds ([], 0) = (counts, tot)"
    by (cases "countLeaves md field ds ([], 0)")
  have k: "map fst counts
           = firstEncountered (filter (\<lambda>v. v \<noteq> ''__proto__'') (countedValues md field ds))"
    using countLeaves_keys [of "[]" md field ds 0] c by simp
  have t: "tot = length (countedValues md field ds)"
    using countLeaves_total [of md field ds "[]" 0] c by simp
  show ?thesis
  proof (cases "tot = 0")
    case True
    with t have "countedValues md field ds = []" by simp
    with True c f False show ?thesis
      by (simp add: calculatePieChartData_def firstEncountered_def ownKeyOrder_def)
  next
    case nz: False
    with c f False show ?thesis
      by (simp add: calculatePieChartData_def map_segValue_pushSegments map_fst_Object_entries k)
  qed
qed

text \<open>
  Claim C1, as stated: the segments list the distinct field values in first-encountered
  order among the descendant leaves. The segments are produced by iterating
  \<^verbatim>\<open>Object.entries(counts)\<close>, and JavaScript enumerates keys that are array indices
  before all others, in ascending numeric order. With the values \<open>2021\<close> and \<open>2020\<close>
  encountered in that order, the segments come out as \<open>2020\<close>, \<open>2021\<close>.
\<close>

theorem pie_segment_order_counterexample:
  "map segValue
     (calculatePieChartData
        [[(''accessionVersion'', ''A1''), (''Year'', ''2021'')],
         [(''accessionVersion'', ''A2''), (''Year'', ''2020'')]]
        (Some ''Year'') []
        (getDescendantLeaves
           (TNode None None False False
              [TNode (Some ''A1'') None True False [], TNode (Some ''A2'') None True False []])))
     = [''2020'', ''2021'']
   \<and> firstEncountered
       (countedValues
          [[(''accessionVersion'', ''A1''), (''Year'', ''2021'')],
           [(''accessionVersion'', ''A2''), (''Year'', ''2020'')]]
          ''Year''
          (getDescendantLeaves
             (TNode None None False False
                [TNode (Some ''A1'') None True False [],
                 TNode (Some ''A2'') None True False []])))
     = [''2021'', ''2020'']"
  by (simp add: calculatePieChartData_def findByAccession_def extractAccessionVersion_def
      leafName_def Object_entries_def ownKeyOrder_def isArrayIndex_def parseDigits_def
      digitValue_def countedValues_def firstEncountered_def Let_def setProperty_def
      getProperty_def objectPrototypeMembers_def)

text \<open>
  Claim C1, amended. For every node and every non-empty selected field such that no
  counted value is \<^verbatim>\<open>__proto__\<close>, the values of the segments of
  \<open>calculatePieChartData\<close> on the node's descendant leaves are the distinct counted values
  in the key order of the \<open>counts\<close> object: the values that are array indices (canonical
  decimal numerals below \<open>2\<^sup>3\<^sup>2 - 1\<close>) first, in ascending numeric order, then all other
  values in the order in which they were first encountered among the descendant leaves,
  left to right and depth first. When no counted value is an array index, the order is
  the first-encountered order; it is neither alphabetical nor by count.
\<close>

theorem pie_segment_order:
  "field \<noteq> [] \<Longrightarrow>
   ''__proto__'' \<notin> set (countedValues metadata field (getDescendantLeaves node)) \<Longrightarrow>
   map segValue
     (calculatePieChartData metadata (Some field) colorMap (getDescendantLeaves node))
     = ownKeyOrder (firstEncountered (countedValues metadata field (getDescendantLeaves node)))
   \<and> ((\<forall>v \<in> set (countedValues metadata field (getDescendantLeaves node)). \<not> isArrayIndex v)
        \<longrightarrow>
        map segValue
          (calculatePieChartData metadata (Some field) colorMap (getDescendantLeaves node))
          = firstEncountered (countedValues metadata field (getDescendantLeaves node)))"
proof -
  assume f: "field \<noteq> []"
    and np: "''__proto__'' \<notin> set (countedValues metadata field (getDescendantLeaves node))"
  let ?cv = "countedValues metadata field (getDescendantLeaves node)"
  from np have "filter (\<lambda>v. v \<noteq> ''__proto__'') ?cv = ?cv"
    by (simp add: filter_id_conv) metis
  with pie_values [OF f, of metadata colorMap "getDescendantLeaves node"]
  have v: "map segValue
             (calculatePieChartData metadata (Some field) colorMap (getDescendantLeaves node))
           = ownKeyOrder (firstEncountered ?cv)"
    by simp
  show ?thesis
    using v ownKeyOrder_no_index [of "firstEncountered ?cv"]
    by (simp add: set_firstEncountered)
qed

theorem pie_segment_order_witness:
  "''Country'' \<noteq> []
   \<and> \<not> isArrayIndex ''USA'' \<and> \<not> isArrayIndex ''Canada''
   \<and> countedValues
       [[(''accessionVersion'', ''A1''), (''Country'', ''USA'')],
        [(''accessionVersion'', ''A2''), (''Country'', ''Canada'')],
        [(''accessionVersion'', ''A3''), (''Country'', ''USA'')]]
       ''Country''
       (getDescendantLeaves
          (TNode None None False False
             [TNode (Some ''A1'') None True False [],
              TNode None None False False
                [TNode (Some ''A2'') None True False [],
                 TNode (Some ''A3'') None True False []]]))
     = [''USA'', ''Canada'', ''USA'']
   \<and> map segValue
       (calculatePieChartData
          [[(''accessionVersion'', ''A1''), (''Country'', ''USA'')],
           [(''accessionVersion'', ''A2''), (''Country'', ''Canada'')],
           [(''accessionVersion'', ''A3''), (''Country'', ''USA'')]]
          (Some ''Country'') []
          (getDescendantLeaves
             (TNode None None False False
                [TNode (Some ''A1'') None True False [],
                 TNode None None False False
                   [TNode (Some ''A2'') None True False [],
                    TNode (Some ''A3'') None True False []]])))
     = [''USA'', ''Canada'']"
proof -
  let ?md = "[[(''accessionVersion'', ''A1''), (''Country'', ''USA'')],
           [(''accessionVersion'', ''A2''), (''Country'', ''Canada'')],
           [(''accessionVersion'', ''A3''), (''Country'', ''USA'')]]"
  let ?node = "TNode None None False False
                [TNode (Some ''A1'') None True False [],
                 TNode None None False False
                   [TNode (Some ''A2'') None True False [],
                    TNode (Some ''A3'') None True False []]]"
  have f: "''Country'' \<noteq> []" by simp
  have cv: "countedValues ?md ''Country'' (getDescendantLeaves ?node)
            = [''USA'', ''Canada'', ''USA'']"
    by (simp add: countedValues_def findByAccession_def extractAccessionVersion_def
        leafName_def)
  have np: "''__proto__'' \<notin> set (countedValues ?md ''Country'' (getDescendantLeaves ?node))"
    unfolding cv by simp
  have ni: "\<forall>v \<in> set (countedValues ?md ''Country'' (getDescendantLeaves ?node)).
              \<not> isArrayIndex v"
    unfolding cv by (simp add: isArrayIndex_def digitValue_def)
  have fe: "firstEncountered [''USA'', ''Canada'', ''USA''] = [''USA'', ''Canada'']"
    by (simp add: firstEncountered_def)
  have "map segValue
          (calculatePieChartData ?md (Some ''Country'') [] (getDescendantLeaves ?node))
        = firstEncountered (countedValues ?md ''Country'' (getDescendantLeaves ?node))"
    using pie_segment_order [OF f np, of "[]"] ni by blast
  then have "map segValue
          (calculatePieChartData ?md (Some ''Country'') [] (getDescendantLeaves ?node))
        = [''USA'', ''Canada'']"
    by (simp only: cv fe)
  moreover have "\<not> isArrayIndex ''USA''" "\<not> isArrayIndex ''Canada''"
    by (simp_all add: isArrayIndex_def digitValue_def)
  ultimately show ?thesis using f cv by simp
qed

text \<open>
  Claim C7. When no descendant leaf resolves to a metadata record with a non-empty
  value for the selected field, the counted total is 0 and \<open>calculatePieChartData\<close>
  returns the empty list of segments.
\<close>

theorem pie_empty_without_data:
  assumes "\<forall>leaf \<in> set descendants.
             \<not> (\<exists>item v. findByAccession metadata (extractAccessionVersion (leafName leaf))
                           = Some item
                       \<and> map_of item field = Some v \<and> v \<noteq> [])"
  shows "snd (countLeaves metadata field descendants ([], 0)) = 0
         \<and> calculatePieChartData metadata (Some field) colorMap descendants = []"
proof -
  have "countedValues metadata field descendants = []"
    using assms by (auto simp: countedValues_def split: option.splits)
  then have z: "snd (countLeaves metadata field descendants ([], 0)) = 0"
    by (simp add: countLeaves_total)
  then have "calculatePieChartData metadata (Some field) colorMap descendants = []"
    by (auto simp: calculatePieChartData_def split: prod.splits)
  with z show ?thesis by simp
qed

theorem pie_empty_without_data_witness:
  "findByAccession [[(''accessionVersion'', ''A1''), (''Country'', [])]]
     (extractAccessionVersion (leafName (TNode (Some ''A1'') None True False [])))
     = Some [(''accessionVersion'', ''A1''), (''Country'', [])]
   \<and> findByAccession [[(''accessionVersion'', ''A1''), (''Country'', [])]]
     (extractAccessionVersion (leafName (TNode (Some ''B9'') None True False []))) = None
   \<and> calculatePieChartData [[(''accessionVersion'', ''A1''), (''Country'', [])]]
        (Some ''Country'') [(''USA'', ''hsl(10, 100%, 75%)'')]
        [TNode (Some ''A1'') None True False [], TNode (Some ''B9'') None True False []] = []"
proof -
  let ?md = "[[(''accessionVersion'', ''A1''), (''Country'', [])]]"
  let ?ds = "[TNode (Some ''A1'') None True False [], TNode (Some ''B9'') None True False []]"
  have h: "\<forall>leaf \<in> set ?ds.
      \<not> (\<exists>item v. findByAccession ?md (extractAccessionVersion (leafName leaf)) = Some item
                \<and> map_of item ''Country'' = Some v \<and> v \<noteq> [])"
    by (auto simp: findByAccession_def extractAccessionVersion_def leafName_def)
  have "calculatePieChartData ?md (Some ''Country'') [(''USA'', ''hsl(10, 100%, 75%)'')] ?ds
        = []"
    using pie_empty_without_data [OF h, of "[(''USA'', ''hsl(10, 100%, 75%)'')]"]
    by blast
  then show ?thesis
    by (simp add: findByAccession_def extractAccessionVersion_def leafName_def)
qed

subsection \<open>Angles and proportions\<close>

lemma tiles_snoc: "tiles a (ss @ [s]) b \<longleftrightarrow> tiles a ss (startAngle s) \<and> endAngle s = b"
  by (induction ss arbitrary: a) auto

lemma sum_insort_key: "sum_list (map g (insort_key f x xs)) = g x + sum_list (map g xs)"
  for g :: "'a \<Rightarrow> nat"
  by (induction xs) auto

lemma sum_sort_key: "sum_list (map g (sort_key f xs)) = sum_list (map g xs)"
  for g :: "'a \<Rightarrow> nat"
  by (induction xs) (auto simp: sum_insort_key)

lemma sum_filter_split:
  "sum_list (map g (filter P xs)) + sum_list (map g (filter (\<lambda>x. \<not> P x) xs))
     = sum_list (map g xs)"
  for g :: "'a \<Rightarrow> nat"
  by (induction xs) auto

lemma sum_ownKeyOrder: "sum_list (map g (ownKeyOrder ks)) = sum_list (map g ks)"
  for g :: "string \<Rightarrow> nat"
  using sum_filter_split [of g isArrayIndex ks]
  by (simp add: ownKeyOrder_def sum_sort_key)

lemma set_ownKeyOrder: "set (ownKeyOrder ks) = set ks"
  by (auto simp: ownKeyOrder_def)

lemma values_by_key:
  assumes d: "distinct (map fst obj)"
  shows "map (\<lambda>k. the (map_of obj k)) (map fst obj) = map snd obj"
proof -
  have "the (map_of obj (fst p)) = snd p" if "p \<in> set obj" for p
    using map_of_is_SomeI [OF d, of "fst p" "snd p"] that by simp
  then show ?thesis by simp
qed

text \<open>
  As long as no counted value names a member of \<^verbatim>\<open>Object.prototype\<close>, every value of
  \<^verbatim>\<open>counts\<close> is a number and the numbers add up to the total.
\<close>

lemma putOwn_counts:
  assumes "\<forall>p \<in> set ps. \<exists>n. snd p = Count n"
  shows "(\<forall>p \<in> set (putOwn k (increment (case map_of ps k of Some c \<Rightarrow> Own c | None \<Rightarrow> Missing) k) ps).
            \<exists>n. snd p = Count n)
         \<and> sum_list (map (\<lambda>p. tallyCount (snd p))
              (putOwn k (increment (case map_of ps k of Some c \<Rightarrow> Own c | None \<Rightarrow> Missing) k) ps))
           = sum_list (map (\<lambda>p. tallyCount (snd p)) ps) + 1"
  using assms
proof (induction ps)
  case Nil
  show ?case by simp
next
  case (Cons p ps)
  obtain a c where p: "p = (a, c)" by (cases p)
  from Cons.prems p obtain n where n: "c = Count n" by auto
  from Cons.prems have rest: "\<forall>p \<in> set ps. \<exists>n. snd p = Count n" by simp
  show ?case
  proof (cases "a = k")
    case True
    have "putOwn k (increment (case map_of (p # ps) k of Some c \<Rightarrow> Own c | None \<Rightarrow> Missing) k) (p # ps)
          = (k, Count (n + 1)) # ps"
      by (simp add: p n True)
    then show ?thesis using rest by (simp add: p n)
  next
    case False
    have "putOwn k (increment (case map_of (p # ps) k of Some c \<Rightarrow> Own c | None \<Rightarrow> Missing) k) (p # ps)
          = p # putOwn k (increment (case map_of ps k of Some c \<Rightarrow> Own c | None \<Rightarrow> Missing) k) ps"
      using False by (simp add: p)
    then show ?thesis using Cons.IH [OF rest] by (simp add: p n)
  qed
qed

lemma setProperty_counts:
  assumes "\<forall>p \<in> set counts. \<exists>n. snd p = Count n" and "v \<notin> set objectPrototypeMembers"
  shows "(\<forall>p \<in> set (setProperty v (increment (getProperty counts v) v) counts).
            \<exists>n. snd p = Count n)
         \<and> sum_list (map (\<lambda>p. tallyCount (snd p))
              (setProperty v (increment (getProperty counts v) v) counts))
           = sum_list (map (\<lambda>p. tallyCount (snd p)) counts) + 1"
proof -
  from assms(2) have np: "v \<noteq> ''__proto__''"
    by (auto simp: objectPrototypeMembers_def)
  from assms(2) have g: "getProperty counts v
                      = (case map_of counts v of Some c \<Rightarrow> Own c | None \<Rightarrow> Missing)"
    by (simp add: getProperty_def split: option.splits)
  have s: "setProperty v (increment (getProperty counts v) v) counts
           = putOwn v (increment (case map_of counts v of Some c \<Rightarrow> Own c | None \<Rightarrow> Missing) v) counts"
    using np by (simp only: setProperty_def g if_False)
  show ?thesis unfolding s by (rule putOwn_counts [OF assms(1)])
qed

lemma countLeaves_counts:
  assumes "distinct (map fst counts)" "\<forall>p \<in> set counts. \<exists>n. snd p = Count n"
    "sum_list (map (\<lambda>p. tallyCount (snd p)) counts) = tot"
    and "\<forall>v \<in> set (countedValues md f leaves). v \<notin> set objectPrototypeMembers"
  shows "distinct (map fst (fst (countLeaves md f leaves (counts, tot))))
         \<and> (\<forall>p \<in> set (fst (countLeaves md f leaves (counts, tot))). \<exists>n. snd p = Count n)
         \<and> sum_list (map (\<lambda>p. tallyCount (snd p)) (fst (countLeaves md f leaves (counts, tot))))
           = snd (countLeaves md f leaves (counts, tot))"
  using assms
proof (induction leaves arbitrary: counts tot)
  case Nil
  then show ?case by simp
next
  case (Cons leaf leaves)
  show ?case
  proof (cases "findByAccession md (extractAccessionVersion (leafName leaf))")
    case None
    with Cons.prems(4) have "\<forall>v \<in> set (countedValues md f leaves). v \<notin> set objectPrototypeMembers"
      by (simp add: countedValues_Cons)
    from Cons.IH [OF Cons.prems(1,2,3) this] None show ?thesis by simp
  next
    case (Some item)
    show ?thesis
    proof (cases "truthy (map_of item f)")
      case False
      with Some Cons.prems(4)
      have "\<forall>v \<in> set (countedValues md f leaves). v \<notin> set objectPrototypeMembers"
        by (auto simp: countedValues_Cons split: option.splits)
      from Cons.IH [OF Cons.prems(1,2,3) this] Some False show ?thesis by simp
    next
      case True
      then obtain v where v: "map_of item f = Some v" "v \<noteq> []"
        by (cases "map_of item f") auto
      let ?counts' = "setProperty v (increment (getProperty counts v) v) counts"
      from v Some Cons.prems(4) have vn: "v \<notin> set objectPrototypeMembers"
        and rest: "\<forall>v \<in> set (countedValues md f leaves). v \<notin> set objectPrototypeMembers"
        by (simp_all add: countedValues_Cons)
      have d: "distinct (map fst ?counts')"
        using Cons.prems(1) by (simp add: map_fst_setProperty)
      from setProperty_counts [OF Cons.prems(2) vn]
      have c: "\<forall>p \<in> set ?counts'. \<exists>n. snd p = Count n"
        and s0: "sum_list (map (\<lambda>p. tallyCount (snd p)) ?counts')
                 = sum_list (map (\<lambda>p. tallyCount (snd p)) counts) + 1"
        by blast+
      from s0 Cons.prems(3) have s: "sum_list (map (\<lambda>p. tallyCount (snd p)) ?counts') = tot + 1"
        by simp
      have step: "countLeaves md f (leaf # leaves) (counts, tot)
                  = countLeaves md f leaves (?counts', tot + 1)"
        using v Some by (simp add: Let_def)
      from Cons.IH [OF d c s rest] show ?thesis
        unfolding step .
    qed
  qed
qed

lemma Object_entries_counts:
  assumes d: "distinct (map fst counts)" and c: "\<forall>p \<in> set counts. \<exists>n. snd p = Count n"
  shows "(\<forall>p \<in> set (Object_entries counts). \<exists>n. snd p = Count n)
         \<and> sum_list (map (\<lambda>p. tallyCount (snd p)) (Object_entries counts))
           = sum_list (map (\<lambda>p. tallyCount (snd p)) counts)"
proof -
  have own: "\<exists>n. the (map_of counts k) = Count n" if "k \<in> set (map fst counts)" for k
  proof -
    from that obtain p where p: "p \<in> set counts" "fst p = k" by auto
    then have "(k, snd p) \<in> set counts" by (cases p) auto
    with map_of_is_SomeI [OF d, of k "snd p"] have "the (map_of counts k) = snd p"
      by simp
    with c p(1) show ?thesis by auto
  qed
  have a: "\<forall>p \<in> set (Object_entries counts). \<exists>n. snd p = Count n"
    using own by (auto simp: Object_entries_def set_ownKeyOrder)
  have "sum_list (map (\<lambda>p. tallyCount (snd p)) (Object_entries counts))
        = sum_list (map (\<lambda>k. tallyCount (the (map_of counts k))) (ownKeyOrder (map fst counts)))"
    by (simp add: Object_entries_def comp_def)
  also have "\<dots> = sum_list (map (\<lambda>k. tallyCount (the (map_of counts k))) (map fst counts))"
    by (rule sum_ownKeyOrder)
  also have "\<dots> = sum_list (map tallyCount (map (\<lambda>k. the (map_of counts k)) (map fst counts)))"
    by (simp add: comp_def)
  also have "\<dots> = sum_list (map tallyCount (map snd counts))"
    by (simp only: values_by_key [OF d])
  also have "\<dots> = sum_list (map (\<lambda>p. tallyCount (snd p)) counts)"
    by (simp add: comp_def)
  finally show ?thesis using a by blast
qed

lemma pushSegments_tiles:
  assumes "\<forall>p \<in> set entries. \<exists>n. snd p = Count n" and "tiles a segs (Finite cur)"
    and "0 < tot"
  shows "tiles a (pushSegments cm tot entries (Finite cur) segs)
           (Finite (cur + real (sum_list (map (\<lambda>p. tallyCount (snd p)) entries)) / real tot
                          * 2 * pi))"
  using assms(1,2)
proof (induction entries arbitrary: cur segs)
  case Nil
  then show ?case by simp
next
  case (Cons p entries)
  obtain k c where p: "p = (k, c)" by (cases p)
  from Cons.prems(1) p obtain n where n: "c = Count n" by auto
  from Cons.prems(1) have rest: "\<forall>p \<in> set entries. \<exists>n. snd p = Count n" by simp
  let ?angle = "real n / real tot * 2 * pi"
  let ?col = "case colorOf cm k of Some cl \<Rightarrow> cl | None \<Rightarrow> Css ''#cccccc''"
  let ?s = "\<lparr>startAngle = Finite cur, endAngle = Finite (cur + ?angle),
             segColor = ?col, segValue = k, segCount = Count n,
             proportion = Finite (real n / real tot)\<rparr>"
  have t0: "tiles a (segs @ [?s]) (Finite (cur + ?angle))"
    using Cons.prems(2) by (simp add: tiles_snoc)
  have t: "tiles a (pushSegments cm tot entries (Finite (cur + ?angle)) (segs @ [?s]))
            (Finite (cur + ?angle
                     + real (sum_list (map (\<lambda>p. tallyCount (snd p)) entries)) / real tot * 2 * pi))"
    by (rule Cons.IH [OF rest t0])
  have e1: "pushSegments cm tot (p # entries) (Finite cur) segs
            = pushSegments cm tot entries (Finite (cur + ?angle)) (segs @ [?s])"
    using assms(3) by (simp add: p n Let_def)
  have e2: "cur + real (sum_list (map (\<lambda>p. tallyCount (snd p)) (p # entries))) / real tot * 2 * pi
            = cur + ?angle
              + real (sum_list (map (\<lambda>p. tallyCount (snd p)) entries)) / real tot * 2 * pi"
    by (simp add: p n algebra_simps add_divide_distrib)
  show ?case unfolding e1 e2 by (rule t)
qed

lemma pushSegments_proportions:
  assumes "\<forall>p \<in> set entries. \<exists>n. snd p = Count n" and "0 < tot"
  shows "map proportion (pushSegments cm tot entries cur segs)
         = map proportion segs
           @ map (\<lambda>p. Finite (real (tallyCount (snd p)) / real tot)) entries"
  using assms(1)
proof (induction entries arbitrary: cur segs)
  case Nil
  show ?case by simp
next
  case (Cons p entries)
  obtain k c where p: "p = (k, c)" by (cases p)
  from Cons.prems p obtain n where n: "c = Count n" by auto
  from Cons.prems have rest: "\<forall>p \<in> set entries. \<exists>n. snd p = Count n" by simp
  show ?case
    using assms(2) by (simp add: p n Let_def Cons.IH [OF rest])
qed

lemma sum_proportions:
  "sum_list (map (\<lambda>p. real (tallyCount (snd p)) / real tot) entries)
   = real (sum_list (map (\<lambda>p. tallyCount (snd p)) entries)) / real tot"
  by (induction entries) (simp_all add: add_divide_distrib)

text \<open>
  Whenever some leaf is counted and no counted value names a member of
  \<^verbatim>\<open>Object.prototype\<close>, \<open>calculatePieChartData\<close> returns at least one segment, the
  segments tile the full circle from 0 to \<open>2\<pi>\<close> without gap or overlap, and their
  proportions add up to 1. The angles and proportions are those of the exact arithmetic
  of the model; the source computes them in double precision, where the first angle is
  0 and every segment starts where the one before it ends all the same, while the sums
  are reached up to rounding.
\<close>

lemma pie_segments_tile_circle:
  assumes f: "field \<noteq> []"
    and some: "countedValues metadata field descendants \<noteq> []"
    and plain: "\<forall>v \<in> set (countedValues metadata field descendants).
                  v \<notin> set objectPrototypeMembers"
  shows "calculatePieChartData metadata (Some field) colorMap descendants \<noteq> []
         \<and> tiles (Finite 0) (calculatePieChartData metadata (Some field) colorMap descendants)
             (Finite (2 * pi))
         \<and> (\<exists>ps. map proportion
                    (calculatePieChartData metadata (Some field) colorMap descendants)
                  = map Finite ps \<and> sum_list ps = 1)"
proof -
  let ?segs = "calculatePieChartData metadata (Some field) colorMap descendants"
  have md: "metadata \<noteq> []"
    using some by (auto simp: countedValues_def findByAccession_def)
  obtain counts tot where c: "countLeaves metadata field descendants ([], 0) = (counts, tot)"
    by (cases "countLeaves metadata field descendants ([], 0)")
  have t: "tot = length (countedValues metadata field descendants)"
    using countLeaves_total [of metadata field descendants "[]" 0] c by simp
  with some have pos: "0 < tot" by simp
  have inv: "distinct (map fst counts) \<and> (\<forall>p \<in> set counts. \<exists>n. snd p = Count n)
             \<and> sum_list (map (\<lambda>p. tallyCount (snd p)) counts) = tot"
    using countLeaves_counts [of "[]" 0 metadata field descendants] plain c by simp
  let ?entries = "Object_entries counts"
  from Object_entries_counts [of counts] inv
  have ec: "\<forall>p \<in> set ?entries. \<exists>n. snd p = Count n"
    and es: "sum_list (map (\<lambda>p. tallyCount (snd p)) ?entries) = tot"
    by simp_all
  have r: "?segs = pushSegments colorMap tot ?entries (Finite 0) []"
    using f md c pos by (simp add: calculatePieChartData_def)
  have full: "0 + real tot / real tot * 2 * pi = 2 * pi" using pos by simp
  have "tiles (Finite 0) (pushSegments colorMap tot ?entries (Finite 0) [])
          (Finite (0 + real (sum_list (map (\<lambda>p. tallyCount (snd p)) ?entries)) / real tot
                       * 2 * pi))"
    by (rule pushSegments_tiles [OF ec _ pos]) simp
  then have ti: "tiles (Finite 0) ?segs (Finite (2 * pi))"
    unfolding r es full .
  let ?ps = "map (\<lambda>p. real (tallyCount (snd p)) / real tot) ?entries"
  have pr: "map proportion ?segs = map Finite ?ps"
    unfolding r by (simp add: pushSegments_proportions [OF ec pos] comp_def)
  have su: "sum_list ?ps = 1"
    using pos by (simp only: sum_proportions es) simp
  have "?entries \<noteq> []"
  proof
    assume "?entries = []"
    with es pos show False by simp
  qed
  then have "?ps \<noteq> []" by simp
  with pr have ne: "?segs \<noteq> []" by auto
  from ne ti pr su show ?thesis by blast
qed

text \<open>
  Claim C4 says that for a counted total \<open>N > 0\<close> the first segment starts at 0, the
  segments follow one another without gap, the proportions add up to 1 and the last
  segment ends at \<open>2\<pi>\<close>. A counted value that names a member of \<^verbatim>\<open>Object.prototype\<close>
  breaks this. For a single leaf whose value is \<^verbatim>\<open>__proto__\<close> the total is 1 and no
  segment is returned at all. For a single leaf whose value is \<^verbatim>\<open>constructor\<close> the
  count is a string, so the proportion and the end angle of the only segment are
  \<^verbatim>\<open>NaN\<close>, and its colour is the inherited member instead of a colour string.
\<close>

theorem pie_prototype_values:
  "snd (countLeaves [[(''accessionVersion'', ''A1''), (''Gene'', ''__proto__'')]] ''Gene''
          [TNode (Some ''A1'') None True False []] ([], 0)) = 1
   \<and> calculatePieChartData [[(''accessionVersion'', ''A1''), (''Gene'', ''__proto__'')]]
       (Some ''Gene'') [] [TNode (Some ''A1'') None True False []] = []
   \<and> snd (countLeaves [[(''accessionVersion'', ''A1''), (''Gene'', ''constructor'')]] ''Gene''
          [TNode (Some ''A1'') None True False []] ([], 0)) = 1
   \<and> calculatePieChartData [[(''accessionVersion'', ''A1''), (''Gene'', ''constructor'')]]
       (Some ''Gene'') [] [TNode (Some ''A1'') None True False []]
     = [\<lparr>startAngle = Finite 0, endAngle = NaN, segColor = Member ''constructor'',
          segValue = ''constructor'', segCount = MemberText ''constructor'' 1,
          proportion = NaN\<rparr>]"
  by (simp add: calculatePieChartData_def findByAccession_def extractAccessionVersion_def
      leafName_def Object_entries_def ownKeyOrder_def isArrayIndex_def parseDigits_def
      digitValue_def Let_def setProperty_def getProperty_def objectPrototypeMembers_def
      colorOf_def)

section \<open>Duplicate accessions\<close>

lemma findByAccession_dropLater:
  "findByAccession (dropLater seen metadata) acc
   = (if Some acc \<in> set seen then None else findByAccession metadata acc)"
proof (induction metadata arbitrary: seen)
  case Nil
  show ?case by (simp add: findByAccession_def)
next
  case (Cons r rs)
  show ?case
  proof (cases "map_of r ''accessionVersion'' \<in> set seen")
    case True
    then show ?thesis
      using Cons.IH [of seen] by (auto simp: findByAccession_def)
  next
    case False
    then show ?thesis
      using Cons.IH [of "map_of r ''accessionVersion'' # seen"]
      by (auto simp: findByAccession_def)
  qed
qed

lemma dropLater_Nil_iff: "dropLater [] metadata = [] \<longleftrightarrow> metadata = []"
  by (cases metadata) simp_all

lemma countLeaves_dropLater:
  "countLeaves (dropLater [] metadata) field leaves (counts, tot)
   = countLeaves metadata field leaves (counts, tot)"
  by (induction leaves arbitrary: counts tot)
    (simp_all add: findByAccession_dropLater Let_def split: option.splits)

text \<open>
  Every lookup made with \<^verbatim>\<open>find\<close> resolves to the first record that carries the
  accession: the label, the search match, the colour, the pie aggregation (for any list
  of descendants) and the tooltip are the same on the table and on the table without
  the records that repeat an earlier accession.
\<close>

lemma find_lookups_use_first_record:
  "findByAccession (dropLater [] metadata) acc = findByAccession metadata acc
   \<and> buildNodeLabel (dropLater [] metadata) labelFields nodeName
     = buildNodeLabel metadata labelFields nodeName
   \<and> isNodeMatched lc (dropLater [] metadata) searchTerm nodeName
     = isNodeMatched lc metadata searchTerm nodeName
   \<and> getNodeColor (dropLater [] metadata) selectedField colorMap nodeName
     = getNodeColor metadata selectedField colorMap nodeName
   \<and> calculatePieChartData (dropLater [] metadata) selectedField colorMap descendants
     = calculatePieChartData metadata selectedField colorMap descendants
   \<and> showNodeTooltip (dropLater [] metadata) selectedField colorMap rect node cx cy tip
     = showNodeTooltip metadata selectedField colorMap rect node cx cy tip"
proof -
  have pie: "calculatePieChartData (dropLater [] metadata) sf colorMap ds
             = calculatePieChartData metadata sf colorMap ds" for sf ds
    by (simp add: calculatePieChartData_def dropLater_Nil_iff countLeaves_dropLater
        split: option.splits)
  show ?thesis
    by (simp add: findByAccession_dropLater buildNodeLabel_def isNodeMatched_def
        getNodeColor_def showNodeTooltip_def dropLater_Nil_iff pie Let_def
        cong: option.case_cong if_cong)
qed

text \<open>
  Claim C5 says that with several records of the same accessionVersion every lookup by
  accession resolves to the last of them. With the two records \<open>A1, USA\<close> and
  \<open>A1, Canada\<close>, in that order, the lookups made with \<^verbatim>\<open>find\<close> resolve to the first:
  the label shows \<open>USA\<close>, the search finds \<open>usa\<close> and not \<open>canada\<close>, the colour is the one
  of \<open>USA\<close>, the tooltip shows the first record, and the pie aggregation counts \<open>USA\<close>.
  The pie-chart metadata built for the renderer in the same component is keyed by
  accession and written record by record, so there the last record wins: it holds
  \<open>Canada\<close> for \<open>A1\<close>.
\<close>

theorem duplicate_accession_lookups:
  "findByAccession
     [[(''accessionVersion'', ''A1''), (''Country'', ''USA'')],
      [(''accessionVersion'', ''A1''), (''Country'', ''Canada'')]] ''A1''
     = Some [(''accessionVersion'', ''A1''), (''Country'', ''USA'')]
   \<and> buildNodeLabel
       [[(''accessionVersion'', ''A1''), (''Country'', ''USA'')],
        [(''accessionVersion'', ''A1''), (''Country'', ''Canada'')]] [''Country''] ''A1''
     = ''A1|USA''
   \<and> isNodeMatched toLowerAscii
       [[(''accessionVersion'', ''A1''), (''Country'', ''USA'')],
        [(''accessionVersion'', ''A1''), (''Country'', ''Canada'')]] ''usa'' ''A1''
   \<and> \<not> isNodeMatched toLowerAscii
       [[(''accessionVersion'', ''A1''), (''Country'', ''USA'')],
        [(''accessionVersion'', ''A1''), (''Country'', ''Canada'')]] ''canada'' ''A1''
   \<and> getNodeColor
       [[(''accessionVersion'', ''A1''), (''Country'', ''USA'')],
        [(''accessionVersion'', ''A1''), (''Country'', ''Canada'')]] (Some ''Country'')
       [(''USA'', ''hsl(83, 100%, 75%)''), (''Canada'', ''hsl(118, 100%, 75%)'')] ''A1''
     = Some (Css ''hsl(83, 100%, 75%)'')
   \<and> tipMetadata
       (showNodeTooltip
          [[(''accessionVersion'', ''A1''), (''Country'', ''USA'')],
           [(''accessionVersion'', ''A1''), (''Country'', ''Canada'')]] (Some ''Country'') []
          (Some (0, 0)) (TNode (Some ''A1'') None True False []) 40 60
          \<lparr>visible = False, posX = 0, posY = 0, isDragging = False, dragOffsetX = 0,
            dragOffsetY = 0, tipNode = None, nodeType = [], isInternal = False,
            isCollapsed = False, tipMetadata = None, pieChartData = None,
            descendantCount = 0\<rparr>)
     = Some [(''accessionVersion'', ''A1''), (''Country'', ''USA'')]
   \<and> map segValue
       (calculatePieChartData
          [[(''accessionVersion'', ''A1''), (''Country'', ''USA'')],
           [(''accessionVersion'', ''A1''), (''Country'', ''Canada'')]] (Some ''Country'') []
          [TNode (Some ''A1'') None True False []])
     = [''USA'']
   \<and> createMetadataForPieCharts
       [[(''accessionVersion'', ''A1''), (''Country'', ''USA'')],
        [(''accessionVersion'', ''A1''), (''Country'', ''Canada'')]] (Some ''Country'')
     = [(''A1'', ''Country'', ''Canada'')]"
proof -
  let ?r1 = "[(''accessionVersion'', ''A1''), (''Country'', ''USA'')]"
  let ?r2 = "[(''accessionVersion'', ''A1''), (''Country'', ''Canada'')]"
  let ?md = "[?r1, ?r2]"
  have f: "findByAccession ?md ''A1'' = Some ?r1"
    by (simp add: findByAccession_def)
  have k: "extractAccessionVersion ''A1'' = ''A1''"
    by (simp add: extractAccessionVersion_def)
  have l: "buildNodeLabel ?md [''Country''] ''A1'' = ''A1|USA''"
    by (simp add: buildNodeLabel_def k f)
  have low: "toLowerAscii ''usa'' = ''usa''" "toLowerAscii ''USA'' = ''usa''"
    "toLowerAscii ''canada'' = ''canada''" "toLowerAscii ''A1'' = ''a1''"
    by (simp_all add: toLowerAscii_def)
  have m1: "isNodeMatched toLowerAscii ?md ''usa'' ''A1''"
    by (simp add: isNodeMatched_def k f Object_values_def low)
  have m2: "\<not> isNodeMatched toLowerAscii ?md ''canada'' ''A1''"
    by (simp add: isNodeMatched_def k f Object_values_def low)
  have c: "getNodeColor ?md (Some ''Country'')
             [(''USA'', ''hsl(83, 100%, 75%)''), (''Canada'', ''hsl(118, 100%, 75%)'')] ''A1''
           = Some (Css ''hsl(83, 100%, 75%)'')"
    by (simp add: getNodeColor_def k f colorOf_def getProperty_def)
  have t: "tipMetadata
       (showNodeTooltip ?md (Some ''Country'') []
          (Some (0, 0)) (TNode (Some ''A1'') None True False []) 40 60
          \<lparr>visible = False, posX = 0, posY = 0, isDragging = False, dragOffsetX = 0,
            dragOffsetY = 0, tipNode = None, nodeType = [], isInternal = False,
            isCollapsed = False, tipMetadata = None, pieChartData = None,
            descendantCount = 0\<rparr>) = Some ?r1"
    by (simp add: showNodeTooltip_def leafName_def k f Let_def)
  have p: "map segValue
       (calculatePieChartData ?md (Some ''Country'') [] [TNode (Some ''A1'') None True False []])
     = [''USA'']"
    by (simp add: calculatePieChartData_def leafName_def k f Let_def setProperty_def
        getProperty_def objectPrototypeMembers_def Object_entries_def ownKeyOrder_def
        isArrayIndex_def digitValue_def)
  have i: "createMetadataForPieCharts ?md (Some ''Country'') = [(''A1'', ''Country'', ''Canada'')]"
    by (simp add: createMetadataForPieCharts_def setProperty_def)
  from f l m1 m2 c t p i show ?thesis by simp
qed

section \<open>Tooltip position\<close>

text \<open>
  One axis of the clamping, for an extent \<open>s\<close> of the box (300 or 200) and a viewport
  extent \<open>w\<close> that is an integer of at most 31 bits.
\<close>

lemma clamp_axis:
  fixes x :: real and w s :: int
  assumes s: "0 \<le> s" "s \<le> 300" and w: "s + 20 \<le> w" "w < 2 ^ 31"
  defines "l \<equiv> max 10 (if roundDouble (x + of_int s) > of_int w
                          then roundDouble (roundDouble (of_int w - of_int s) - 10) else x)"
  shows "10 \<le> l"
    and "roundDouble (l + of_int s) \<le> of_int w"
    and "of_int w < roundDouble (x + of_int s) \<Longrightarrow> l + of_int s = of_int w - 10"
    and "roundDouble (x + of_int s) \<le> of_int w \<Longrightarrow> l = max 10 x"
    and "roundDouble (x + of_int s) = x + of_int s \<Longrightarrow> l + of_int s \<le> of_int w"
proof -
  have p31: "(2::int) ^ 31 = 2147483648" "(2::int) ^ 53 = 9007199254740992"
    by simp_all
  have r1: "roundDouble (of_int w - of_int s) = of_int (w - s)"
    using roundDouble_of_int [of "w - s"] s w by (simp add: p31)
  have r2: "roundDouble (of_int (w - s) - 10) = of_int (w - s - 10)"
    using roundDouble_of_int [of "w - s - 10"] s w by (simp add: p31)
  have r3: "roundDouble (of_int (w - s - 10) + of_int s) = of_int (w - 10)"
    using roundDouble_of_int [of "w - 10"] s w by (simp add: p31)
  have r4: "roundDouble (10 + of_int s) = of_int (10 + s)"
    using roundDouble_of_int [of "10 + s"] s by (simp add: p31)
  have moved: "roundDouble (roundDouble (of_int w - of_int s) - 10) = of_int (w - s - 10)"
    by (simp only: r1 r2)
  have far: "(10::real) \<le> of_int (w - s - 10)"
    using w by simp
  show "10 \<le> l"
    by (simp add: l_def)
  show over: "l + of_int s = of_int w - 10" if "of_int w < roundDouble (x + of_int s)"
    using that far by (simp add: l_def moved max_def)
  show stay: "l = max 10 x" if "roundDouble (x + of_int s) \<le> of_int w"
    using that by (simp add: l_def)
  show "roundDouble (l + of_int s) \<le> of_int w"
  proof (cases "of_int w < roundDouble (x + of_int s)")
    case True
    then have "l = of_int (w - s - 10)"
      using far by (simp add: l_def moved max_def)
    then show ?thesis
      using r3 by simp
  next
    case False
    then have l: "l = max 10 x"
      by (simp add: l_def)
    show ?thesis
    proof (cases "10 \<le> x")
      case True
      then show ?thesis using l False by (simp add: max_def)
    next
      case False
      then have "l = 10" using l by (simp add: max_def)
      then show ?thesis using r4 w by simp
    qed
  qed
  show "l + of_int s \<le> of_int w" if "roundDouble (x + of_int s) = x + of_int s"
  proof (cases "of_int w < roundDouble (x + of_int s)")
    case True
    then show ?thesis using over by simp
  next
    case False
    then have "l = max 10 x" "x + of_int s \<le> of_int w"
      using that by (simp_all add: l_def)
    moreover have "(10::real) + of_int s \<le> of_int w"
      using w by linarith
    ultimately show ?thesis by (simp add: max_def)
  qed
qed

text \<open>
  Claim C9, as stated: when the tooltip is not being dragged and the viewport is at
  least 320 by 220 pixels, the assumed 300 by 200 box keeps a margin of at least 10
  pixels on all four sides. The position is moved only when the box would cross the
  right or bottom edge of the viewport: in a viewport of 1000 by 800, a box placed at
  \<open>x = 695\<close> ends at 995, does not cross the edge at 1000 and is left there, 5 pixels
  from the right edge.
\<close>

theorem tooltip_margin_counterexample:
  "styleLeft (nodeTooltipGlobalStyle
      \<lparr>visible = True, posX = 695, posY = 100, isDragging = False,
        dragOffsetX = 0, dragOffsetY = 0\<rparr> 1000 800) = 695
   \<and> \<not> (styleLeft (nodeTooltipGlobalStyle
      \<lparr>visible = True, posX = 695, posY = 100, isDragging = False,
        dragOffsetX = 0, dragOffsetY = 0\<rparr> 1000 800) + 300 \<le> 1000 - 10)"
  by (simp add: nodeTooltipGlobalStyle_def)

text \<open>
  Claim C9, amended. Write \<open>x\<close> and \<open>y\<close> for the base position plus the drag offset, as
  the code computes them in double arithmetic. When the tooltip is not being dragged
  and the viewport is at least 320 by 220 pixels (its extents integers below \<open>2\<^sup>3\<^sup>1\<close>),
  the position is at least 10 pixels from the left and top edges, and the right and
  bottom edges of the assumed 300 by 200 box, as the code computes them, lie inside
  the viewport. When the unclamped box would cross the right (bottom) edge, the box
  is moved to end exactly 10 pixels before that edge; otherwise the position is
  \<open>max 10 x\<close> (\<open>max 10 y\<close>): it stays where it is when it is at least 10 and becomes 10
  otherwise, so the margin on the right and bottom can be smaller than 10 pixels. Where the sum \<open>x + 300\<close> (\<open>y + 200\<close>) is a double, the box lies inside
  the viewport exactly. While a drag is active the position is \<open>x\<close> and \<open>y\<close>, without
  clamping.
\<close>

theorem tooltip_position:
  "(isDragging t \<longrightarrow>
      styleLeft (nodeTooltipGlobalStyle t w h) = roundDouble (posX t + dragOffsetX t)
      \<and> styleTop (nodeTooltipGlobalStyle t w h) = roundDouble (posY t + dragOffsetY t))
   \<and> (\<not> isDragging t \<and> 320 \<le> w \<and> w < 2 ^ 31 \<and> 220 \<le> h \<and> h < 2 ^ 31 \<longrightarrow>
        10 \<le> styleLeft (nodeTooltipGlobalStyle t w h)
        \<and> roundDouble (styleLeft (nodeTooltipGlobalStyle t w h) + 300) \<le> of_int w
        \<and> 10 \<le> styleTop (nodeTooltipGlobalStyle t w h)
        \<and> roundDouble (styleTop (nodeTooltipGlobalStyle t w h) + 200) \<le> of_int h
        \<and> (of_int w < roundDouble (roundDouble (posX t + dragOffsetX t) + 300) \<longrightarrow>
              styleLeft (nodeTooltipGlobalStyle t w h) + 300 = of_int w - 10)
        \<and> (of_int h < roundDouble (roundDouble (posY t + dragOffsetY t) + 200) \<longrightarrow>
              styleTop (nodeTooltipGlobalStyle t w h) + 200 = of_int h - 10)
        \<and> (roundDouble (roundDouble (posX t + dragOffsetX t) + 300) \<le> of_int w \<longrightarrow>
              styleLeft (nodeTooltipGlobalStyle t w h)
              = max 10 (roundDouble (posX t + dragOffsetX t)))
        \<and> (roundDouble (roundDouble (posY t + dragOffsetY t) + 200) \<le> of_int h \<longrightarrow>
              styleTop (nodeTooltipGlobalStyle t w h)
              = max 10 (roundDouble (posY t + dragOffsetY t)))
        \<and> (roundDouble (roundDouble (posX t + dragOffsetX t) + 300)
             = roundDouble (posX t + dragOffsetX t) + 300 \<longrightarrow>
              styleLeft (nodeTooltipGlobalStyle t w h) + 300 \<le> of_int w)
        \<and> (roundDouble (roundDouble (posY t + dragOffsetY t) + 200)
             = roundDouble (posY t + dragOffsetY t) + 200 \<longrightarrow>
              styleTop (nodeTooltipGlobalStyle t w h) + 200 \<le> of_int h))"
proof -
  let ?x = "roundDouble (posX t + dragOffsetX t)"
  let ?y = "roundDouble (posY t + dragOffsetY t)"
  have drag: "styleLeft (nodeTooltipGlobalStyle t w h) = ?x
              \<and> styleTop (nodeTooltipGlobalStyle t w h) = ?y" if "isDragging t"
    using that by (simp add: nodeTooltipGlobalStyle_def Let_def)
  have left: "styleLeft (nodeTooltipGlobalStyle t w h)
              = max 10 (if roundDouble (?x + of_int 300) > of_int w
                        then roundDouble (roundDouble (of_int w - of_int 300) - 10) else ?x)"
    and top: "styleTop (nodeTooltipGlobalStyle t w h)
              = max 10 (if roundDouble (?y + of_int 200) > of_int h
                        then roundDouble (roundDouble (of_int h - of_int 200) - 10) else ?y)"
    if "\<not> isDragging t"
    using that by (simp_all add: nodeTooltipGlobalStyle_def Let_def)
  have still: "10 \<le> styleLeft (nodeTooltipGlobalStyle t w h)
        \<and> roundDouble (styleLeft (nodeTooltipGlobalStyle t w h) + 300) \<le> of_int w
        \<and> 10 \<le> styleTop (nodeTooltipGlobalStyle t w h)
        \<and> roundDouble (styleTop (nodeTooltipGlobalStyle t w h) + 200) \<le> of_int h
        \<and> (of_int w < roundDouble (?x + 300) \<longrightarrow>
              styleLeft (nodeTooltipGlobalStyle t w h) + 300 = of_int w - 10)
        \<and> (of_int h < roundDouble (?y + 200) \<longrightarrow>
              styleTop (nodeTooltipGlobalStyle t w h) + 200 = of_int h - 10)
        \<and> (roundDouble (?x + 300) \<le> of_int w \<longrightarrow>
              styleLeft (nodeTooltipGlobalStyle t w h) = max 10 ?x)
        \<and> (roundDouble (?y + 200) \<le> of_int h \<longrightarrow>
              styleTop (nodeTooltipGlobalStyle t w h) = max 10 ?y)
        \<and> (roundDouble (?x + 300) = ?x + 300 \<longrightarrow>
              styleLeft (nodeTooltipGlobalStyle t w h) + 300 \<le> of_int w)
        \<and> (roundDouble (?y + 200) = ?y + 200 \<longrightarrow>
              styleTop (nodeTooltipGlobalStyle t w h) + 200 \<le> of_int h)"
    if nd: "\<not> isDragging t" and w: "320 \<le> w" "w < 2 ^ 31" and h: "220 \<le> h" "h < 2 ^ 31"
  proof -
    have sw: "(0::int) \<le> 300" "(300::int) \<le> 300" "300 + 20 \<le> w"
      and sh: "(0::int) \<le> 200" "(200::int) \<le> 300" "200 + 20 \<le> h"
      using w h by simp_all
    note a = clamp_axis [OF sw(1) sw(2) sw(3) w(2), of ?x, folded left [OF nd]]
    note b = clamp_axis [OF sh(1) sh(2) sh(3) h(2), of ?y, folded top [OF nd]]
    from a b show ?thesis by simp
  qed
  from drag still show ?thesis by blast
qed

theorem tooltip_position_witness:
  "styleLeft (nodeTooltipGlobalStyle
      \<lparr>visible = True, posX = 990, posY = 790, isDragging = False,
        dragOffsetX = 0, dragOffsetY = 0\<rparr> 1000 800) + 300 = 1000 - 10
   \<and> styleTop (nodeTooltipGlobalStyle
      \<lparr>visible = True, posX = 990, posY = 790, isDragging = False,
        dragOffsetX = 0, dragOffsetY = 0\<rparr> 1000 800) + 200 = 800 - 10
   \<and> styleLeft (nodeTooltipGlobalStyle
      \<lparr>visible = True, posX = 100, posY = 4, isDragging = False,
        dragOffsetX = 0, dragOffsetY = 0\<rparr> 1000 800) = 100
   \<and> styleTop (nodeTooltipGlobalStyle
      \<lparr>visible = True, posX = 100, posY = 4, isDragging = False,
        dragOffsetX = 0, dragOffsetY = 0\<rparr> 1000 800) = 10
   \<and> styleLeft (nodeTooltipGlobalStyle
      \<lparr>visible = True, posX = 990, posY = 790, isDragging = True,
        dragOffsetX = 25, dragOffsetY = - 5\<rparr> 1000 800) = 990 + 25"
proof -
  let ?still = "\<lparr>visible = True, posX = 990, posY = 790, isDragging = False,
        dragOffsetX = 0, dragOffsetY = 0\<rparr>"
  let ?kept = "\<lparr>visible = True, posX = 100, posY = 4, isDragging = False,
        dragOffsetX = 0, dragOffsetY = 0\<rparr>"
  let ?drag = "\<lparr>visible = True, posX = 990, posY = 790, isDragging = True,
        dragOffsetX = 25, dragOffsetY = - 5\<rparr>"
  have view: "(320::int) \<le> 1000 \<and> (1000::int) < 2 ^ 31 \<and> (220::int) \<le> 800
              \<and> (800::int) < 2 ^ 31"
    by simp
  have over: "of_int 1000 < roundDouble (roundDouble (posX ?still + dragOffsetX ?still) + 300)"
    "of_int 800 < roundDouble (roundDouble (posY ?still + dragOffsetY ?still) + 200)"
    by simp_all
  have inside: "roundDouble (roundDouble (posX ?kept + dragOffsetX ?kept) + 300) \<le> of_int 1000"
    "roundDouble (roundDouble (posY ?kept + dragOffsetY ?kept) + 200) \<le> of_int 800"
    by simp_all
  have "styleLeft (nodeTooltipGlobalStyle ?still 1000 800) + 300 = 1000 - 10"
    "styleTop (nodeTooltipGlobalStyle ?still 1000 800) + 200 = 800 - 10"
    using tooltip_position [of ?still 1000 800] view over by simp_all
  moreover have "styleLeft (nodeTooltipGlobalStyle ?kept 1000 800) = 100"
    "styleTop (nodeTooltipGlobalStyle ?kept 1000 800) = 10"
    using tooltip_position [of ?kept 1000 800] view inside by simp_all
  moreover have "styleLeft (nodeTooltipGlobalStyle ?drag 1000 800) = 990 + 25"
    using tooltip_position [of ?drag 1000 800] by simp
  ultimately show ?thesis by simp
qed

section \<open>Scale bar\<close>

text \<open>
  Claim C6, as stated: whenever \<open>getBranchScale\<close> or \<open>getZoom\<close> throws or returns
  \<^verbatim>\<open>undefined\<close>, the scale bar is set to the value 0.1 and the length 100. A returned
  \<^verbatim>\<open>undefined\<close> raises nothing: it turns into \<^verbatim>\<open>NaN\<close> in the product with the zoom
  factor, every later comparison is false, and both fields of the scale bar become
  \<^verbatim>\<open>NaN\<close>.
\<close>

theorem scale_bar_undefined_counterexample:
  "calculateScaleBar
     (Some \<lparr>getBranchScale = Some (Return Undefined),
            getZoom = Some (Return (Number (Finite 0)))\<rparr>)
     \<lparr>scaleBarValue = Finite (1 / 10), scaleBarLength = Finite 100\<rparr>
   = Return \<lparr>scaleBarValue = NaN, scaleBarLength = NaN\<rparr>"
  by (simp add: calculateScaleBar_def scaleBarTry_def niceScaleBar_def)

text \<open>
  Claim C6, amended. Whenever \<open>getBranchScale\<close> or \<open>getZoom\<close> throws,
  \<open>calculateScaleBar\<close> sets the scale bar to the value 0.1 and the length 100, and in no
  case does \<open>calculateScaleBar\<close> propagate a failure to its caller.
\<close>

theorem scale_bar_fallback:
  "(getBranchScale tree = Some Throw \<longrightarrow>
      calculateScaleBar (Some tree) bar
        = Return \<lparr>scaleBarValue = Finite (1 / 10), scaleBarLength = Finite 100\<rparr>)
   \<and> (getBranchScale tree \<noteq> Some Throw \<and> getZoom tree = Some Throw \<longrightarrow>
        calculateScaleBar (Some tree) bar
          = Return \<lparr>scaleBarValue = Finite (1 / 10), scaleBarLength = Finite 100\<rparr>)
   \<and> calculateScaleBar treeInstance bar \<noteq> Throw"
  by (auto simp: calculateScaleBar_def scaleBarTry_def split: option.splits completion.splits)

theorem scale_bar_fallback_witness:
  "calculateScaleBar (Some \<lparr>getBranchScale = Some Throw, getZoom = None\<rparr>)
     \<lparr>scaleBarValue = Finite 2, scaleBarLength = Finite 80\<rparr>
     = Return \<lparr>scaleBarValue = Finite (1 / 10), scaleBarLength = Finite 100\<rparr>
   \<and> calculateScaleBar
       (Some \<lparr>getBranchScale = Some (Return (Number (Finite 1))), getZoom = Some Throw\<rparr>)
       \<lparr>scaleBarValue = Finite 2, scaleBarLength = Finite 80\<rparr>
     = Return \<lparr>scaleBarValue = Finite (1 / 10), scaleBarLength = Finite 100\<rparr>"
proof -
  let ?t1 = "\<lparr>getBranchScale = Some Throw, getZoom = None\<rparr>"
  let ?t2 = "\<lparr>getBranchScale = Some (Return (Number (Finite 1))), getZoom = Some Throw\<rparr>"
  let ?bar = "\<lparr>scaleBarValue = Finite 2, scaleBarLength = Finite 80\<rparr>"
  have h1: "getBranchScale ?t1 = Some Throw" by simp
  have h2: "getBranchScale ?t2 \<noteq> Some Throw \<and> getZoom ?t2 = Some Throw" by simp
  show ?thesis
    using scale_bar_fallback [of ?t1 ?bar] scale_bar_fallback [of ?t2 ?bar] h1 h2
    by blast
qed


section \<open>Legend colours\<close>

lemma word_hashIter: "word_of_int (hashIter cs h) = hash32Loop cs (word_of_int h)"
  by (induction cs arbitrary: h) (simp_all add: shiftLeft32_def)

lemma shiftLeft32_range: "- (2 ^ 31) \<le> shiftLeft32 a n \<and> shiftLeft32 a n < 2 ^ 31"
  using sint_ge [of "push_bit (n mod 32) (word_of_int a :: 32 word)"]
    sint_lt [of "push_bit (n mod 32) (word_of_int a :: 32 word)"]
  by (simp add: shiftLeft32_def)

lemma uint16_range: "0 \<le> uint (c :: 16 word) \<and> uint c < 2 ^ 16"
  using uint_bounded [of c] by simp

lemma hashIter_step_bound:
  "\<bar>shiftLeft32 h 5 - h\<bar> \<le> \<bar>h\<bar> + 2 ^ 32
   \<and> \<bar>uint (c :: 16 word) + (shiftLeft32 h 5 - h)\<bar> \<le> \<bar>h\<bar> + 2 ^ 32"
proof -
  have a: "- 2147483648 \<le> shiftLeft32 h 5" "shiftLeft32 h 5 < 2147483648"
    using shiftLeft32_range [of h 5] by simp_all
  have b: "0 \<le> uint c" "uint c < 65536"
    using uint16_range [of c] by simp_all
  have "\<bar>shiftLeft32 h 5 - h\<bar> \<le> \<bar>h\<bar> + 4294967296"
    "\<bar>uint c + (shiftLeft32 h 5 - h)\<bar> \<le> \<bar>h\<bar> + 4294967296"
    using a b by linarith+
  then show ?thesis by simp
qed

lemma hashIter_bound: "\<bar>hashIter cs h\<bar> \<le> \<bar>h\<bar> + 2 ^ 32 * int (length cs)"
proof (induction cs arbitrary: h)
  case Nil
  show ?case by simp
next
  case (Cons c cs)
  have "\<bar>uint c + (shiftLeft32 h 5 - h)\<bar> \<le> \<bar>h\<bar> + 2 ^ 32"
    using hashIter_step_bound [of h c] by simp
  with Cons.IH [of "uint c + (shiftLeft32 h 5 - h)"] show ?case
    by (simp add: algebra_simps)
qed

text \<open>
  As long as the hash stays below \<open>2\<^sup>5\<^sup>3\<close> no step of the loop rounds: the loop of the
  code computes the iteration on integers.
\<close>

lemma hashLoop_hashIter:
  "\<bar>h\<bar> + 2 ^ 32 * int (length cs) < 2 ^ 53 \<Longrightarrow> hashLoop cs h = hashIter cs h"
proof (induction cs arbitrary: h)
  case Nil
  show ?case by simp
next
  case (Cons c cs)
  let ?v = "shiftLeft32 h 5 - h"
  let ?u = "uint c + ?v"
  have len: "\<bar>h\<bar> + 2 ^ 32 + 2 ^ 32 * int (length cs) < 2 ^ 53"
    using Cons.prems by (simp add: algebra_simps)
  have "0 \<le> (2::int) ^ 32 * int (length cs)" by simp
  with len have small: "\<bar>h\<bar> + 2 ^ 32 < (2::int) ^ 53" by linarith
  have v: "\<bar>?v\<bar> < 2 ^ 53" and u: "\<bar>?u\<bar> < 2 ^ 53"
    using hashIter_step_bound [of h c] small by linarith+
  have next_small: "\<bar>?u\<bar> + 2 ^ 32 * int (length cs) < 2 ^ 53"
    using hashIter_step_bound [of h c] len by linarith
  have "hashLoop (c # cs) h = hashLoop cs ?u"
    by (simp add: roundInt_exact [OF v] roundInt_exact [OF u])
  also have "\<dots> = hashIter cs ?u"
    by (rule Cons.IH [OF next_small])
  finally show ?case by simp
qed

lemma remainder_range: "0 < n \<Longrightarrow> - n < remainder a n \<and> remainder a n < n"
proof -
  assume n: "0 < n"
  then have "0 \<le> \<bar>a\<bar> mod \<bar>n\<bar>" "\<bar>a\<bar> mod \<bar>n\<bar> < n" by simp_all
  then show ?thesis by (cases "a < 0"; cases "a = 0") (simp_all add: remainder_def sgn_if)
qed

lemma hashLoop_France: "hashLoop [70, 114, 97, 110, 99, 101] 0 = - 2182646725"
proof -
  have "hashLoop [70, 114, 97, 110, 99, 101] 0 = hashIter [70, 114, 97, 110, 99, 101] 0"
    by (rule hashLoop_hashIter) simp
  also have "\<dots> = - 2182646725"
    by (simp add: shiftLeft32_def)
  finally show ?thesis .
qed

text \<open>
  Claim C8, as stated: the hue is \<open>hash mod 360\<close> of the 32-bit signed rolling hash.
  Only the shift \<^verbatim>\<open>hash << 5\<close> is reduced to 32 bits; the running hash is not. For the
  string \<open>France\<close> (code units 70, 114, 97, 110, 99, 101) the last step computes
  \<open>101 + (-2114507456 - 68139370) = -2182646725\<close>, below the 32-bit range, and the colour
  is \<open>hsl(-205, 100%, 75%)\<close>; the 32-bit signed hash is 2112320571, with hue 51.
\<close>

theorem generateColor_hash32_counterexample:
  "hashLoop [70, 114, 97, 110, 99, 101] 0 = - 2182646725
   \<and> generateColor [70, 114, 97, 110, 99, 101] = ''hsl(-205, 100%, 75%)''
   \<and> sint (hash32Loop [70, 114, 97, 110, 99, 101] 0) = 2112320571
   \<and> colorOfHash32 [70, 114, 97, 110, 99, 101] = ''hsl(51, 100%, 75%)''"
proof -
  have "generateColor [70, 114, 97, 110, 99, 101] = ''hsl(-205, 100%, 75%)''"
    unfolding generateColor_def hashLoop_France Let_def
    by (simp add: remainder_def numberToString_def natToString.simps)
  moreover have "sint (hash32Loop [70, 114, 97, 110, 99, 101] 0) = 2112320571"
    by simp
  moreover have "colorOfHash32 [70, 114, 97, 110, 99, 101] = ''hsl(51, 100%, 75%)''"
    by (simp add: colorOfHash32_def remainder_def numberToString_def natToString.simps)
  ultimately show ?thesis using hashLoop_France by simp
qed

text \<open>
  Claim C8, amended. \<open>generateColor\<close> is a function of its string argument alone: for
  every string of fewer than \<open>2\<^sup>2\<^sup>1\<close> code units it returns \<open>hsl(H, 100%, 75%)\<close> where \<open>H\<close>
  is \<open>hash % 360\<close> with the sign of \<open>hash\<close>, so that \<open>-360 < H < 360\<close>, and \<open>hash\<close> is
  computed by iterating \<open>hash = charCode + ((hash << 5) - hash)\<close> over the code units
  from 0, where only the shift is taken in 32-bit signed arithmetic. The hash agrees
  with the 32-bit rolling hash modulo \<open>2\<^sup>3\<^sup>2\<close> and its absolute value is at most \<open>2\<^sup>3\<^sup>2\<close>
  times the length of the string, so that below \<open>2\<^sup>2\<^sup>1\<close> code units no step of the loop
  is rounded.
\<close>

theorem generateColor_hue:
  "length str < 2 ^ 21 \<Longrightarrow>
     hashLoop str 0 = hashIter str 0
     \<and> generateColor str
       = ''hsl('' @ numberToString (remainder (hashIter str 0) 360) @ '', 100%, 75%)''
     \<and> - 360 < remainder (hashIter str 0) 360 \<and> remainder (hashIter str 0) 360 < 360
     \<and> word_of_int (hashIter str 0) = hash32Loop str 0
     \<and> \<bar>hashIter str 0\<bar> \<le> 2 ^ 32 * int (length str)"
proof -
  assume len: "length str < 2 ^ 21"
  then have "int (length str) < 2 ^ 21"
    by (metis of_nat_less_iff of_nat_numeral of_nat_power)
  then have "2 ^ 32 * int (length str) < (2::int) ^ 32 * 2 ^ 21"
    by (simp only: mult_less_cancel_left_pos zero_less_power zero_less_numeral)
  then have "\<bar>0::int\<bar> + 2 ^ 32 * int (length str) < 2 ^ 53"
    by simp
  then have eq: "hashLoop str 0 = hashIter str 0"
    by (rule hashLoop_hashIter)
  show ?thesis
    using remainder_range [of 360 "hashIter str 0"] word_hashIter [of str 0]
      hashIter_bound [of str 0]
    by (simp add: generateColor_def eq)
qed

theorem generateColor_hue_witness:
  "length [85, 83, 65 :: 16 word] < 2 ^ 21
   \<and> generateColor [85, 83, 65] = ''hsl(83, 100%, 75%)''
   \<and> hashLoop [85, 83, 65] 0 = 84323"
proof -
  have len: "length [85, 83, 65 :: 16 word] < 2 ^ 21"
    by simp
  have h: "hashIter [85, 83, 65] 0 = 84323"
    by (simp add: shiftLeft32_def)
  have "hashLoop [85, 83, 65] 0 = hashIter [85, 83, 65] 0"
    "generateColor [85, 83, 65]
     = ''hsl('' @ numberToString (remainder (hashIter [85, 83, 65] 0) 360) @ '', 100%, 75%)''"
    using generateColor_hue [OF len] by blast+
  then show ?thesis
    unfolding h using len by (simp add: remainder_def numberToString_def natToString.simps)
qed

end
